theory Spec2Isabelle
  imports Main "HOL-Library.AList"
begin

section \<open>Python values held by the module registry\<close>

text \<open>
  The host's \<^verbatim>\<open>Modules\<close> attribute is a dictionary from category names to either a
  callable or a list whose elements are descriptor tuples and callables. The elements are
  arbitrary Python values as far as the plugin is concerned: it tests them with
  \<^verbatim>\<open>isinstance\<close>, \<^verbatim>\<open>len\<close>, \<^verbatim>\<open>callable\<close> and \<^verbatim>\<open>==\<close>.
  A dictionary is an association list (Python dictionaries keep insertion order).
\<close>

datatype pyval =
    PNone
  | PStr string
  | PInt int
  | PCallable string
  | PTuple "pyval list"
  | PList "pyval list"

type_synonym dict = "(string \<times> pyval) list"

text \<open>A reference is an object identity, or Python's \<^verbatim>\<open>None\<close>.\<close>

type_synonym ref = "nat option"

datatype exn =
  AttributeError | IndexError | RuntimeError | RecursionError | ImportError | HostError

fun callable :: "pyval \<Rightarrow> bool" where
  "callable (PCallable f) = True"
| "callable v = False"

section \<open>The host's object graph\<close>

text \<open>
  Every attribute that the plugin probes with \<^verbatim>\<open>hasattr\<close> is an optional field:
  \<open>None\<close> says that the object has no such attribute. Attributes that hold objects hold
  a reference, which may be Python's \<^verbatim>\<open>None\<close>. \<open>children\<close> is the result of the
  \<^verbatim>\<open>children()\<close> method, absent on objects that are not widgets. \<open>alive\<close> is false
  for a wrapper whose toolkit object has been deleted: every toolkit call on it raises
  \<^verbatim>\<open>RuntimeError\<close>. \<open>findChild\<close> tabulates \<^verbatim>\<open>findChild(QRadioButton, name)\<close>,
  \<open>button_groups\<close> and \<open>grid_layouts\<close> tabulate \<^verbatim>\<open>findChildren\<close> for the two
  classes the plugin asks for, \<open>pages\<close> is the content of a stacked widget, and
  \<open>methods\<close> lists the callable attributes among the four refresh names, each with
  the exception it raises if it does.

  \<open>py_id\<close> is the number that \<^verbatim>\<open>id(widget)\<close> returns for the Python object through
  which the code holds this object. It is an address, not an identity: a wrapper that
  \<^verbatim>\<open>children()\<close> makes for a toolkit-side object lives only as long as the list it
  came in, and the address of a wrapper that is gone is given to a later one. So two
  objects of the graph can have the same \<open>py_id\<close>; objects that Python holds at the
  same time have different ones. An object keeps the one number the model gives it.

  A dictionary or list is held by value in the object whose attribute it is. Python
  would let two objects share one dictionary; nothing below reads a registry through a
  second holder after writing it through the first.
\<close>

record obj =
  cls :: string
  py_id :: nat
  alive :: bool
  Modules :: "dict option"
  ui :: "ref option"
  children :: "nat list option"
  parent :: ref
  show_compression_module :: bool
  module_window :: "ref option"
  module_name_attr :: "pyval option"
  myStackedWidget :: "ref option"
  pages :: "ref list"
  findChild :: "(string \<times> nat) list option"
  button_groups :: "nat list"
  grid_layouts :: "nat list"
  gridLayout :: "ref option"
  methods :: "(string \<times> exn option) list"

definition lookup_obj :: "obj list \<Rightarrow> ref \<Rightarrow> obj option" where
  "lookup_obj h r =
     (case r of None \<Rightarrow> None
      | Some n \<Rightarrow> if n < length h then Some (h ! n) else None)"

text \<open>
  \<open>getattr f h r\<close> reads the attribute \<open>f\<close> of the object \<open>r\<close>; \<open>None\<close> is
  \<^verbatim>\<open>hasattr(r, f) == False\<close>, which is what Python's \<^verbatim>\<open>None\<close> answers for every
  attribute below. A reference to no object of the graph cannot arise in Python; it is
  read as an object without attributes.
\<close>

definition getattr :: "(obj \<Rightarrow> 'a option) \<Rightarrow> obj list \<Rightarrow> ref \<Rightarrow> 'a option" where
  "getattr f h r = (case lookup_obj h r of None \<Rightarrow> None | Some ob \<Rightarrow> f ob)"

definition hasattr :: "(obj \<Rightarrow> 'a option) \<Rightarrow> obj list \<Rightarrow> ref \<Rightarrow> bool" where
  "hasattr f h r = (getattr f h r \<noteq> None)"

section \<open>Locating the main window and the registry\<close>

text \<open>
  \<^verbatim>\<open>find_main_window\<close>, first loop. In the source the innermost test
  \<^verbatim>\<open>hasattr(widget, 'Modules')\<close> under \<^verbatim>\<open>myStackedWidget\<close> repeats the first test of
  the iteration; it is kept as written.
\<close>

fun find_main_window_direct :: "obj list \<Rightarrow> nat list \<Rightarrow> ref" where
  "find_main_window_direct h [] = None"
| "find_main_window_direct h (widget # ws) =
     (if hasattr Modules h (Some widget) then Some widget
      else (case getattr ui h (Some widget) of
              None \<Rightarrow> find_main_window_direct h ws
            | Some u \<Rightarrow>
                if hasattr Modules h u then u
                else if hasattr myStackedWidget h u \<and> hasattr Modules h (Some widget)
                     then Some widget
                     else find_main_window_direct h ws))"

fun find_main_window_by_class :: "obj list \<Rightarrow> nat list \<Rightarrow> ref" where
  "find_main_window_by_class h [] = None"
| "find_main_window_by_class h (widget # ws) =
     (if map_option cls (lookup_obj h (Some widget)) = Some ''OsdagMainWindow''
      then Some widget
      else find_main_window_by_class h ws)"

definition find_main_window :: "obj list \<Rightarrow> nat list \<Rightarrow> ref" where
  "find_main_window h tops =
     (case find_main_window_direct h tops of
        Some w \<Rightarrow> Some w
      | None \<Rightarrow> find_main_window_by_class h tops)"

text \<open>\<^verbatim>\<open>id(widget)\<close>, for a widget of the graph.\<close>

definition id_of :: "obj list \<Rightarrow> nat \<Rightarrow> nat" where
  "id_of h w = (case lookup_obj h (Some w) of None \<Rightarrow> w | Some ob \<Rightarrow> py_id ob)"

text \<open>
  \<^verbatim>\<open>search_for_modules(widget, visited)\<close>: the nested function of
  \<^verbatim>\<open>_find_modules_dict\<close>. The set \<open>visited\<close> is one mutable set shared by the whole
  search, so the model returns it together with the result; it holds the numbers
  \<^verbatim>\<open>id(widget)\<close>, as lines 119 and 122 have it. \<^verbatim>\<open>widget.children()\<close> on an object
  without that method raises \<^verbatim>\<open>AttributeError\<close>. The recursion is Python's: each
  call takes one frame of the interpreter's stack, \<open>frames\<close> is the number of frames
  still free, and a call with none left raises \<^verbatim>\<open>RecursionError\<close>.
\<close>

fun search_for_modules ::
    "obj list \<Rightarrow> nat \<Rightarrow> nat \<Rightarrow> nat set \<Rightarrow> exn + ((nat \<times> dict) option \<times> nat set)"
  and search_children ::
    "obj list \<Rightarrow> nat \<Rightarrow> nat list \<Rightarrow> nat set \<Rightarrow> exn + ((nat \<times> dict) option \<times> nat set)"
where
  "search_for_modules h 0 widget visited = Inl RecursionError"
| "search_for_modules h (Suc frames) widget visited =
    (if id_of h widget \<in> visited then Inr (None, visited)
     else (case getattr Modules h (Some widget) of
             Some d \<Rightarrow> Inr (Some (widget, d), insert (id_of h widget) visited)
           | None \<Rightarrow>
              (case getattr children h (Some widget) of
                 None \<Rightarrow> Inl AttributeError
               | Some cs \<Rightarrow> search_children h frames cs (insert (id_of h widget) visited))))"
| "search_children h frames [] visited = Inr (None, visited)"
| "search_children h frames (child # cs) visited =
    (case search_for_modules h frames child visited of
       Inl e \<Rightarrow> Inl e
     | Inr (Some r, v) \<Rightarrow> Inr (Some r, v)
     | Inr (None, v) \<Rightarrow> search_children h frames cs v)"

text \<open>
  \<^verbatim>\<open>_find_modules_dict(window_obj)\<close>: the window, then its \<^verbatim>\<open>ui\<close> attribute, then
  the recursive search from the window with a fresh \<open>visited\<close> set. The result is the
  pair (object, dictionary), or \<^verbatim>\<open>(None, None)\<close>. When \<open>window_obj\<close> is
  \<^verbatim>\<open>None\<close> the search reaches \<^verbatim>\<open>widget.children()\<close> on \<^verbatim>\<open>None\<close>. \<open>frames\<close>
  is the number of stack frames free when the search is called.
\<close>

definition find_modules_dict :: "obj list \<Rightarrow> nat \<Rightarrow> ref \<Rightarrow> exn + (ref \<times> dict) option" where
  "find_modules_dict h frames window_obj =
     (case getattr Modules h window_obj of
        Some d \<Rightarrow> Inr (Some (window_obj, d))
      | None \<Rightarrow>
         (case (case getattr ui h window_obj of
                  None \<Rightarrow> None
                | Some u \<Rightarrow> map_option (Pair u) (getattr Modules h u)) of
            Some found \<Rightarrow> Inr (Some found)
          | None \<Rightarrow>
             (case window_obj of
                None \<Rightarrow> if frames = 0 then Inl RecursionError else Inl AttributeError
              | Some w \<Rightarrow>
                 (case search_for_modules h frames w {} of
                    Inl e \<Rightarrow> Inl e
                  | Inr (None, v) \<Rightarrow> Inr None
                  | Inr (Some (m, d), v) \<Rightarrow> Inr (Some (Some m, d))))))"

section \<open>Effects\<close>

text \<open>
  Calls into the toolkit and the host, and lines printed to standard output, are
  recorded in a trace in the order the code makes them. The widget that
  \<^verbatim>\<open>Submodule_Widget(module_tuple, page)\<close> constructs and its radio button
  \<^verbatim>\<open>widget.rdbtn\<close> are named symbolically. A printed line is recorded by its fixed
  text: the interpolated \<^verbatim>\<open>repr\<close> of an object, a page index, a class name and the
  text of a caught exception are left out.
\<close>

datatype wref = Widget nat | Created_widget | Created_rdbtn

datatype event =
    Print string
  | Close nat
  | RemoveWidget nat wref
  | DeleteLater nat
  | Construct_Submodule_Widget nat
  | AddButton nat wref
  | AddWidget nat wref nat nat
  | CallMethod nat string

text \<open>
  The world: the object graph, \<^verbatim>\<open>QApplication.topLevelWidgets()\<close>, the plugin's
  \<^verbatim>\<open>main_win\<close> attribute, the trace, and what the environment answers:
  \<open>resource_image\<close> is the path \<^verbatim>\<open>files("osdag.data.ResourceFiles.images")\<close> yields
  (\<open>None\<close> when that raises), \<open>plugin_dir\<close> the directory of the plugin's file and
  \<open>plugin_parent_dir\<close> the directory above it, \<open>sys_path\<close> Python's \<^verbatim>\<open>sys.path\<close>,
  \<open>frames_left\<close> the number of stack frames the interpreter still allows inside
  \<^verbatim>\<open>_find_modules_dict\<close> (the recursion limit less the frames in use),
  \<open>ColumnDesign_importable\<close> whether the import in \<^verbatim>\<open>register\<close> succeeds,
  \<open>Submodule_Widget_raises\<close> the exception raised by importing or constructing
  \<^verbatim>\<open>Submodule_Widget\<close>, if any. What the host's own code does when the
  plugin calls it (a refresh method, the widget constructor, \<^verbatim>\<open>close()\<close>) is
  outside the plugin: the call is recorded in the trace and the graph stays as it is.
\<close>

record world =
  objs :: "obj list"
  top_level :: "nat list"
  main_win :: ref
  trace :: "event list"
  resource_image :: "string option"
  plugin_dir :: string
  plugin_parent_dir :: string
  sys_path :: "string list"
  frames_left :: nat
  ColumnDesign_importable :: bool
  Submodule_Widget_raises :: "exn option"

definition emit :: "event list \<Rightarrow> world \<Rightarrow> world" where
  "emit evs s = s\<lparr>trace := trace s @ evs\<rparr>"

text \<open>
  A toolkit method called on \<open>r\<close>: \<^verbatim>\<open>AttributeError\<close> on \<^verbatim>\<open>None\<close>,
  \<^verbatim>\<open>RuntimeError\<close> on a deleted wrapper.
\<close>

definition qt_call :: "obj list \<Rightarrow> ref \<Rightarrow> exn option" where
  "qt_call h r =
     (case lookup_obj h r of
        None \<Rightarrow> Some AttributeError
      | Some ob \<Rightarrow> if alive ob then None else Some RuntimeError)"

section \<open>The descriptor\<close>

definition get_image_path :: "world \<Rightarrow> string \<Rightarrow> string \<times> event list" where
  "get_image_path s image_name =
     (case resource_image s of
        Some p \<Rightarrow> (p, [])
      | None \<Rightarrow>
          (plugin_dir s @ ''/column/resources/'' @ image_name,
           [Print ''Error loading image from Osdag resources'']))"

definition column_entry :: "string \<Rightarrow> pyval" where
  "column_entry image_path =
     PTuple [PStr ''Axially Loaded Column'', PStr image_path, PStr ''Column_Design'']"

text \<open>\<^verbatim>\<open>modules_obj.Modules[key] = v\<close>, on the object that holds the dictionary.\<close>

definition set_Modules :: "ref \<Rightarrow> dict \<Rightarrow> obj list \<Rightarrow> obj list" where
  "set_Modules r d h =
     (case r of
        None \<Rightarrow> h
      | Some n \<Rightarrow> if n < length h then h[n := (h ! n)\<lparr>Modules := Some d\<rparr>] else h)"

section \<open>Sequencing calls that may raise\<close>

text \<open>
  A step is the exception it raised, if any, and the events that happened before.
  \<open>run\<close> performs steps in order and stops at the first exception.
\<close>

type_synonym step = "exn option \<times> event list"

fun run :: "step list \<Rightarrow> step" where
  "run [] = (None, [])"
| "run ((Some e, evs) # rest) = (Some e, evs)"
| "run ((None, evs) # rest) = (case run rest of (r, evs') \<Rightarrow> (r, evs @ evs'))"

definition say :: "string \<Rightarrow> step" where
  "say line = (None, [Print line])"

definition call :: "obj list \<Rightarrow> ref \<Rightarrow> event list \<Rightarrow> step" where
  "call h r evs = (case qt_call h r of Some e \<Rightarrow> (Some e, []) | None \<Rightarrow> (None, evs))"

text \<open>\<^verbatim>\<open>layout.removeWidget(w)\<close>: both the layout and the argument must be live objects.\<close>

definition removeWidget :: "obj list \<Rightarrow> ref \<Rightarrow> nat \<Rightarrow> step" where
  "removeWidget h layout w =
     (case layout of
        None \<Rightarrow> (Some AttributeError, [])
      | Some l \<Rightarrow> run [call h layout [], call h (Some w) [RemoveWidget l (Widget w)]])"

definition addWidget :: "obj list \<Rightarrow> ref \<Rightarrow> wref \<Rightarrow> nat \<Rightarrow> nat \<Rightarrow> step" where
  "addWidget h layout w row col =
     (case layout of
        None \<Rightarrow> (Some AttributeError, [])
      | Some l \<Rightarrow> call h layout [AddWidget l w row col])"

definition deleteLater :: "obj list \<Rightarrow> nat \<Rightarrow> step" where
  "deleteLater h w = call h (Some w) [DeleteLater w]"

text \<open>\<^verbatim>\<open>hasattr(page, 'ui') and hasattr(page.ui, 'gridLayout')\<close>, and \<^verbatim>\<open>page.ui.gridLayout\<close>.\<close>

definition page_gridLayout :: "obj list \<Rightarrow> ref \<Rightarrow> ref option" where
  "page_gridLayout h page =
     (case getattr ui h page of None \<Rightarrow> None | Some u \<Rightarrow> getattr gridLayout h u)"

text \<open>\<^verbatim>\<open>window.ui.myStackedWidget\<close> under the two \<^verbatim>\<open>hasattr\<close> tests.\<close>

definition window_stack :: "obj list \<Rightarrow> ref \<Rightarrow> ref option" where
  "window_stack h window_obj =
     (case getattr ui h window_obj of None \<Rightarrow> None | Some u \<Rightarrow> getattr myStackedWidget h u)"

definition stack_pages :: "obj list \<Rightarrow> ref \<Rightarrow> ref list" where
  "stack_pages h stack = (case lookup_obj h stack of None \<Rightarrow> [] | Some ob \<Rightarrow> pages ob)"

section \<open>The live user-interface patch\<close>

datatype 'a flow = Raise exn | Return 'a | Continue

text \<open>Lines 248 to 257: remove a column widget that is already on the page.\<close>

definition remove_existing_column :: "obj list \<Rightarrow> ref \<Rightarrow> (string \<times> nat) list \<Rightarrow> step" where
  "remove_existing_column h page buttons =
     (case map_of buttons ''Column_Design'' of
        None \<Rightarrow> (None, [])
      | Some column_button \<Rightarrow>
         (case qt_call h (Some column_button) of
            Some e \<Rightarrow> (Some e, [])
          | None \<Rightarrow>
             (case parent (h ! column_button) of
                None \<Rightarrow> (None, [])
              | Some column_widget \<Rightarrow>
                 (case page_gridLayout h page of
                    None \<Rightarrow> say ''Removing existing Column button widget''
                  | Some layout \<Rightarrow>
                      run [say ''Removing existing Column button widget'',
                           removeWidget h layout column_widget,
                           deleteLater h column_widget]))))"

text \<open>
  Lines 264 to 294, the body of the inner \<^verbatim>\<open>try\<close>: the step ends without an exception
  exactly when the code reaches \<^verbatim>\<open>return True\<close>.
\<close>

definition create_column_widget :: "world \<Rightarrow> nat \<Rightarrow> ref \<Rightarrow> nat \<Rightarrow> step" where
  "create_column_widget s page grid_layout strut_button =
     (let h = objs s in
      run [(if resource_image s = None then Some HostError else None, []),
           (Submodule_Widget_raises s, []),
           (None, [Construct_Submodule_Widget page]),
           (case button_groups (h ! page) of
              [] \<Rightarrow> (None, [])
            | button_group # gs \<Rightarrow> call h (Some button_group) [AddButton button_group Created_rdbtn]),
           addWidget h grid_layout Created_widget 0 0,
           (case qt_call h (Some strut_button) of
              Some e \<Rightarrow> (Some e, [])
            | None \<Rightarrow>
               (case parent (h ! strut_button) of
                  None \<Rightarrow> (None, [])
                | Some strut_widget \<Rightarrow>
                    run [removeWidget h grid_layout strut_widget,
                         addWidget h grid_layout (Widget strut_widget) 0 1])),
           say ''Successfully rebuilt UI with Column module''])"

text \<open>One iteration of the loop over the pages of the stacked widget, lines 234 to 308.\<close>

definition update_page :: "world \<Rightarrow> ref \<Rightarrow> bool flow \<times> event list" where
  "update_page s page =
     (let h = objs s in
      case page of
        None \<Rightarrow> (Continue, [])
      | Some p \<Rightarrow>
         (case getattr findChild h page of
            None \<Rightarrow> (Continue, [Print ''Found page''])
          | Some buttons \<Rightarrow>
             (case qt_call h page of
                Some e \<Rightarrow> (Raise e, [Print ''Found page''])
              | None \<Rightarrow>
                 (case map_of buttons ''Strut_Design'' of
                    None \<Rightarrow> (Continue, [Print ''Found page''])
                  | Some strut_button \<Rightarrow>
                     (case run [say ''Found page'', say ''Found Compression Member page'',
                                remove_existing_column h page buttons] of
                        (Some e, evs) \<Rightarrow> (Raise e, evs)
                      | (None, evs) \<Rightarrow>
                         (case page_gridLayout h page of
                            None \<Rightarrow>
                              (Continue, evs @
                                 [Print ''Could not find gridLayout in page'',
                                  Print (if grid_layouts (h ! p) \<noteq> []
                                         then ''Found grid layouts through findChildren''
                                         else ''Could not find any grid layouts in the page'')])
                          | Some grid_layout \<Rightarrow>
                             (case create_column_widget s p grid_layout strut_button of
                                (None, evs') \<Rightarrow>
                                  (Return True, evs @ Print ''Found gridLayout in page'' # evs')
                              | (Some e, evs') \<Rightarrow>
                                  (Continue, evs @ Print ''Found gridLayout in page'' # evs' @
                                     [Print ''Error creating widget'']))))))))"

fun update_pages :: "world \<Rightarrow> ref list \<Rightarrow> bool flow \<times> event list" where
  "update_pages s [] = (Continue, [])"
| "update_pages s (page # ps) =
     (case update_page s page of
        (Continue, evs) \<Rightarrow> (case update_pages s ps of (r, evs') \<Rightarrow> (r, evs @ evs'))
      | (r, evs) \<Rightarrow> (r, evs))"

text \<open>Lines 313 to 323: the four refresh methods; an exception of one is caught and printed.\<close>

fun call_refresh_methods :: "obj \<Rightarrow> nat \<Rightarrow> string list \<Rightarrow> bool \<times> event list" where
  "call_refresh_methods ob w [] = (False, [])"
| "call_refresh_methods ob w (method_name # ms) =
     (case call_refresh_methods ob w ms of
        (ui_updated, evs) \<Rightarrow>
          (case map_of (methods ob) method_name of
             None \<Rightarrow> (ui_updated, evs)
           | Some None \<Rightarrow>
               (True, [Print (''Calling '' @ method_name @ '' on main window...''),
                       CallMethod w method_name,
                       Print (''Successfully called '' @ method_name)] @ evs)
           | Some (Some e) \<Rightarrow>
               (ui_updated, [Print (''Calling '' @ method_name @ '' on main window...''),
                             CallMethod w method_name,
                             Print (''Error calling '' @ method_name)] @ evs)))"

definition refresh_method_names :: "string list" where
  "refresh_method_names =
     [''initialize_module_buttons'', ''refresh_module_list'', ''setup_module_buttons'', ''update_ui'']"

text \<open>
  \<^verbatim>\<open>_update_live_ui(window_obj)\<close>. The whole body is inside \<^verbatim>\<open>try ... except Exception\<close>,
  so an exception of the page loop ends in the handler's \<^verbatim>\<open>return False\<close>. All the
  call does to the world is in the events it adds to the trace.
\<close>

definition update_live_ui_events :: "world \<Rightarrow> ref \<Rightarrow> bool \<times> event list" where
  "update_live_ui_events s window_obj =
     (let h = objs s;
          (r, evs) =
            (case window_stack h window_obj of
               None \<Rightarrow> (Continue, [Print ''Could not find UI or stackedWidget for immediate update''])
             | Some stack \<Rightarrow>
                (case qt_call h stack of
                   Some e \<Rightarrow> (Raise e, [])
                 | None \<Rightarrow> update_pages s (stack_pages h stack)))
      in case r of
           Raise e \<Rightarrow>
             (False, Print ''Attempting immediate UI update...'' # evs @
                     [Print ''Error in _update_live_ui''])
         | Return b \<Rightarrow> (b, Print ''Attempting immediate UI update...'' # evs)
         | Continue \<Rightarrow>
             (case (case (lookup_obj h window_obj, window_obj) of
                      (Some ob, Some w) \<Rightarrow> call_refresh_methods ob w refresh_method_names
                    | _ \<Rightarrow> (False, [])) of
                (ui_updated, evs') \<Rightarrow>
                  (ui_updated,
                   Print ''Attempting immediate UI update...'' # evs @ evs' @
                   (if ui_updated
                    then [Print ''UI update attempted through multiple methods'',
                          Print ''The Column module should now be visible in the Compression Member section'']
                    else [Print ''UI update failed - changes will be visible after restart'']))))"

definition update_live_ui :: "world \<Rightarrow> ref \<Rightarrow> bool \<times> world" where
  "update_live_ui s window_obj =
     (case update_live_ui_events s window_obj of (result, evs) \<Rightarrow> (result, emit evs s))"

section \<open>register\<close>

text \<open>
  \<^verbatim>\<open>if not modules_dict\<close>: the lookup returned \<^verbatim>\<open>(None, None)\<close>, or a dictionary
  that is empty.
\<close>

definition usable_registry :: "(ref \<times> dict) option \<Rightarrow> (ref \<times> dict) option" where
  "usable_registry found =
     (case found of
        None \<Rightarrow> None
      | Some (modules_obj, modules_dict) \<Rightarrow>
          if modules_dict = [] then None else Some (modules_obj, modules_dict))"

text \<open>
  Lines 169 to 219, entered with the registry \<open>modules_dict\<close> found on
  \<open>modules_obj\<close>. \<^verbatim>\<open>compression_module[-1]\<close> raises \<^verbatim>\<open>IndexError\<close> on an empty
  list. The insertion at index 0 happens before the attribute
  \<^verbatim>\<open>real_main_window.show_compression_module\<close> is read, so the \<^verbatim>\<open>AttributeError\<close>
  of that read leaves the descriptor in the list.
\<close>

definition register_column :: "world \<Rightarrow> ref \<Rightarrow> ref \<Rightarrow> dict \<Rightarrow> exn option \<times> world" where
  "register_column s real_main_window modules_obj modules_dict =
     (case map_of modules_dict ''Compression Member'' of
        None \<Rightarrow>
          (None, emit [Print ''Error: Compression Member module not found in Modules dictionary'',
                       Print ''Available modules''] s)
      | Some compression_module \<Rightarrow>
         (case compression_module of
            PList xs \<Rightarrow>
              if xs = [] then (Some IndexError, s)
              else if callable (last xs) then
                (case get_image_path s ''column.png'' of
                   (image_path, evs) \<Rightarrow>
                     let s1 = emit (evs @ [Print ''Added Column module to Compression Member module:'',
                                           Print ''  - Entry''])
                                (s\<lparr>objs := set_Modules modules_obj
                                     (AList.update ''Compression Member''
                                        (PList (column_entry image_path # xs)) modules_dict)
                                     (objs s)\<rparr>)
                     in if map_option show_compression_module
                             (lookup_obj (objs s1) real_main_window) \<noteq> Some True
                        then (Some AttributeError, s1)
                        else
                          let s2 = emit (if ColumnDesign_importable s1
                                         then [Print ''Successfully imported ColumnDesign class'']
                                         else [Print ''Warning: Could not import ColumnDesign'',
                                               Print ''Module activation may fail if ColumnDesign class is not available''])
                                     s1;
                              s3 = snd (update_live_ui s2 real_main_window);
                              s4 = s3\<lparr>sys_path :=
                                        (if plugin_parent_dir s3 \<in> set (sys_path s3)
                                         then sys_path s3
                                         else sys_path s3 @ [plugin_parent_dir s3])\<rparr>
                          in (None, emit [Print ''Column Plugin activated! Column module added to Compression Member.''] s4))
              else (None, emit [Print ''Error: Compression Member module doesn't have a handler function''] s)
          | _ \<Rightarrow> (None, emit [Print ''Error: Compression Member module is not a list''] s)))"

text \<open>
  \<^verbatim>\<open>register()\<close>: the outcome is the exception that reaches the caller, if any, and
  the world as the call leaves it.
\<close>

definition register :: "world \<Rightarrow> exn option \<times> world" where
  "register s0 =
     (let found = find_main_window (objs s0) (top_level s0);
          real_main_window = (case found of None \<Rightarrow> main_win s0 | Some w \<Rightarrow> Some w);
          s1 = emit [Print ''Registering Column Plugin version 0.1 (Adds Axially Loaded Column Design module to Osdag)'',
                     Print (if found = None then ''Using main_win from plugin manager''
                            else ''Found main window'')]
                 (s0\<lparr>main_win := real_main_window\<rparr>)
      in case find_modules_dict (objs s1) (frames_left s1) real_main_window of
           Inl e \<Rightarrow> (Some e, s1)
         | Inr found_registry \<Rightarrow>
            (case usable_registry found_registry of
               None \<Rightarrow>
                 (None, emit ([Print ''Error: Could not find Modules dictionary'',
                               Print ''Available attributes in main window''] @
                              (if hasattr ui (objs s1) real_main_window
                               then [Print ''Available attributes in main window.ui'']
                               else [])) s1)
             | Some (modules_obj, modules_dict) \<Rightarrow>
                 register_column (emit [Print ''Found Modules dictionary''] s1)
                   real_main_window modules_obj modules_dict))"

section \<open>deactivate\<close>

text \<open>
  The test of lines 376 and 377 on one list element, the loop of line 375 that finds the
  first index passing it, and \<^verbatim>\<open>list.pop(i)\<close> for an index inside the list.
\<close>

definition is_column_entry :: "pyval \<Rightarrow> bool" where
  "is_column_entry item =
     (case item of
        PTuple item_fields \<Rightarrow> 3 \<le> length item_fields \<and> item_fields ! 2 = PStr ''Column_Design''
      | _ \<Rightarrow> False)"

fun find_column_entry :: "nat \<Rightarrow> pyval list \<Rightarrow> nat option" where
  "find_column_entry i [] = None"
| "find_column_entry i (item # rest) =
     (if is_column_entry item then Some i else find_column_entry (Suc i) rest)"

definition pop :: "nat \<Rightarrow> 'a list \<Rightarrow> 'a list" where
  "pop i xs = take i xs @ drop (Suc i) xs"

text \<open>Lines 390 to 410: one page of the stacked widget. Nothing here is inside a \<^verbatim>\<open>try\<close>.\<close>

definition deactivate_page :: "obj list \<Rightarrow> ref \<Rightarrow> step" where
  "deactivate_page h page =
     (case getattr findChild h page of
        None \<Rightarrow> (None, [])
      | Some buttons \<Rightarrow>
         (case qt_call h page of
            Some e \<Rightarrow> (Some e, [])
          | None \<Rightarrow>
             (case map_of buttons ''Strut_Design'' of
                None \<Rightarrow> (None, [])
              | Some strut_button \<Rightarrow>
                 (case map_of buttons ''Column_Design'' of
                    None \<Rightarrow> say ''Found Compression Member page''
                  | Some column_button \<Rightarrow>
                     (case qt_call h (Some column_button) of
                        Some e \<Rightarrow> (Some e, [Print ''Found Compression Member page''])
                      | None \<Rightarrow>
                         (case parent (h ! column_button) of
                            None \<Rightarrow> say ''Found Compression Member page''
                          | Some column_widget \<Rightarrow>
                             (case page_gridLayout h page of
                                None \<Rightarrow>
                                  run [say ''Found Compression Member page'',
                                       say ''Removing Column button widget'',
                                       say ''Could not find gridLayout in page'']
                              | Some layout \<Rightarrow>
                                  run [say ''Found Compression Member page'',
                                       say ''Removing Column button widget'',
                                       removeWidget h layout column_widget,
                                       deleteLater h column_widget])))))))"

definition deactivate_ui :: "obj list \<Rightarrow> ref \<Rightarrow> step" where
  "deactivate_ui h real_main_window =
     (case window_stack h real_main_window of
        None \<Rightarrow> (None, [])
      | Some stack \<Rightarrow>
         (case qt_call h stack of
            Some e \<Rightarrow> (Some e, [])
          | None \<Rightarrow> run (map (deactivate_page h) (stack_pages h stack))))"

text \<open>Lines 369 to 416, entered with the registry found.\<close>

definition deactivate_column :: "world \<Rightarrow> ref \<Rightarrow> ref \<Rightarrow> dict \<Rightarrow> exn option \<times> world" where
  "deactivate_column s real_main_window modules_obj modules_dict =
     (case map_of modules_dict ''Compression Member'' of
        None \<Rightarrow>
          (None, emit [Print ''Error: Compression Member module not found in Modules dictionary'',
                       Print ''Column Plugin deactivated''] s)
      | Some compression_module \<Rightarrow>
         (case compression_module of
            PList xs \<Rightarrow>
              let s1 = (case find_column_entry 0 xs of
                          None \<Rightarrow> s
                        | Some i \<Rightarrow>
                            emit [Print ''Removed Column module from Compression Member module'']
                              (s\<lparr>objs := set_Modules modules_obj
                                   (AList.update ''Compression Member'' (PList (pop i xs)) modules_dict)
                                   (objs s)\<rparr>));
                  s2 = emit [Print ''Attempting immediate UI update...''] s1
              in (case deactivate_ui (objs s2) real_main_window of
                    (Some e, evs) \<Rightarrow> (Some e, emit evs s2)
                  | (None, evs) \<Rightarrow> (None, emit (evs @ [Print ''Column Plugin deactivated'']) s2))
          | _ \<Rightarrow>
              (None, emit [Print ''Error: Compression Member module is not a list'',
                           Print ''Column Plugin deactivated''] s)))"

text \<open>
  Lines 358 to 360: close the column module's window if it is the one open.
  \<^verbatim>\<open>real_main_window.module_window\<close> is truthy when it holds an object.
\<close>

definition close_module_window :: "obj list \<Rightarrow> ref \<Rightarrow> step" where
  "close_module_window h real_main_window =
     (case getattr module_window h real_main_window of
        Some (Some w) \<Rightarrow>
          if getattr module_name_attr h real_main_window = Some (PStr ''Column'')
          then call h (Some w) [Close w]
          else (None, [])
      | _ \<Rightarrow> (None, []))"

definition deactivate :: "world \<Rightarrow> exn option \<times> world" where
  "deactivate s0 =
     (let found = find_main_window (objs s0) (top_level s0);
          real_main_window = (case found of None \<Rightarrow> main_win s0 | Some w \<Rightarrow> Some w)
      in case close_module_window (objs s0) real_main_window of
           (Some e, evs) \<Rightarrow> (Some e, emit (Print ''Deactivating Column Plugin...'' # evs) s0)
         | (None, evs) \<Rightarrow>
            (let s1 = emit (Print ''Deactivating Column Plugin...'' # evs) s0
             in case find_modules_dict (objs s1) (frames_left s1) real_main_window of
                  Inl e \<Rightarrow> (Some e, s1)
                | Inr found_registry \<Rightarrow>
                   (case usable_registry found_registry of
                      None \<Rightarrow> (None, emit [Print ''Error: Could not find Modules dictionary''] s1)
                    | Some (modules_obj, modules_dict) \<Rightarrow>
                        deactivate_column s1 real_main_window modules_obj modules_dict)))"

section \<open>What the claims observe\<close>

text \<open>
  Both \<^verbatim>\<open>register\<close> and \<^verbatim>\<open>deactivate\<close> start from the window that
  \<^verbatim>\<open>find_main_window\<close> returns, or from \<^verbatim>\<open>self.main_win\<close> when it returns
  \<^verbatim>\<open>None\<close>. \<open>located_registry\<close> is the registry they then work on: the object and
  dictionary that \<^verbatim>\<open>_find_modules_dict\<close> returns, when it returns a non-empty one.
  \<open>compression_member\<close> is that registry's entry under the key the plugin uses.
\<close>

definition real_main_window :: "world \<Rightarrow> ref" where
  "real_main_window s =
     (case find_main_window (objs s) (top_level s) of None \<Rightarrow> main_win s | Some w \<Rightarrow> Some w)"

definition located_registry :: "world \<Rightarrow> (ref \<times> dict) option" where
  "located_registry s =
     (case find_modules_dict (objs s) (frames_left s) (real_main_window s) of
        Inl e \<Rightarrow> None
      | Inr found \<Rightarrow> usable_registry found)"

definition compression_member :: "world \<Rightarrow> pyval option" where
  "compression_member s =
     (case located_registry s of
        None \<Rightarrow> None
      | Some (modules_obj, modules_dict) \<Rightarrow> map_of modules_dict ''Compression Member'')"

text \<open>The dictionary after \<^verbatim>\<open>register\<close> has inserted its descriptor in the list \<open>xs\<close>.\<close>

definition registered_dict :: "world \<Rightarrow> pyval list \<Rightarrow> dict \<Rightarrow> dict" where
  "registered_dict s xs d =
     AList.update ''Compression Member''
       (PList (column_entry (fst (get_image_path s ''column.png'')) # xs)) d"

text \<open>
  \<^verbatim>\<open>deactivate\<close> gets past lines 358 to 360 when closing the module window raises
  nothing.
\<close>

definition module_window_closes :: "world \<Rightarrow> bool" where
  "module_window_closes s = (fst (close_module_window (objs s) (real_main_window s)) = None)"

text \<open>The world in which \<^verbatim>\<open>register\<close> enters line 169, after its first prints.\<close>

definition register_entry_state :: "world \<Rightarrow> world" where
  "register_entry_state s =
     emit [Print ''Found Modules dictionary'']
       (emit [Print ''Registering Column Plugin version 0.1 (Adds Axially Loaded Column Design module to Osdag)'',
              Print (if find_main_window (objs s) (top_level s) = None
                     then ''Using main_win from plugin manager'' else ''Found main window'')]
          (s\<lparr>main_win := real_main_window s\<rparr>))"

text \<open>The list after the loop of lines 375 to 381.\<close>

definition without_first_column :: "pyval list \<Rightarrow> pyval list" where
  "without_first_column xs = (case find_column_entry 0 xs of None \<Rightarrow> xs | Some i \<Rightarrow> pop i xs)"

text \<open>
  The invariant of the data model: the list is not empty and its last element is
  callable; and the same said of the registry's "Compression Member" entry.
\<close>

definition trailing_callable :: "pyval list \<Rightarrow> bool" where
  "trailing_callable xs = (xs \<noteq> [] \<and> callable (last xs))"

definition handler_in_place :: "world \<Rightarrow> bool" where
  "handler_in_place s =
     (case compression_member s of Some (PList xs) \<Rightarrow> trailing_callable xs | _ \<Rightarrow> False)"

text \<open>
  Depth-first order, for the claim about the recursive search: the widgets in the order
  a depth-first traversal first meets them, starting from a stack of pending widgets and
  skipping the ones already visited. A widget's children are pushed in the order
  \<^verbatim>\<open>children()\<close> lists them.
\<close>

definition children_of :: "obj list \<Rightarrow> nat \<Rightarrow> nat list" where
  "children_of h w = (case getattr children h (Some w) of None \<Rightarrow> [] | Some cs \<Rightarrow> cs)"

function dfs_order :: "obj list \<Rightarrow> nat list \<Rightarrow> nat set \<Rightarrow> nat list" where
  "dfs_order h [] visited = []"
| "dfs_order h (w # pending) visited =
     (if w \<in> visited then dfs_order h pending visited
      else w # dfs_order h (children_of h w @ pending) (insert w visited))"
  by pat_completeness auto
termination
proof (relation "inv_image (less_than <*lex*> less_than)
    (\<lambda>(h, pending, V). (card ({..<length h} - V), length pending))", goal_cases)
  case 1
  then show ?case by (intro wf_inv_image wf_lex_prod wf_less_than)
next
  case (2 h w pending visited)
  then show ?case by simp
next
  case (3 h w pending visited)
  show ?case
  proof (cases "w < length h")
    case True
    have "{..<length h} - insert w visited \<subset> {..<length h} - visited"
      using True 3 by blast
    then have "card ({..<length h} - insert w visited) < card ({..<length h} - visited)"
      by (intro psubset_card_mono) simp_all
    then show ?thesis by (simp del: Diff_insert0 Diff_insert Diff_insert2 card_Diff_insert)
  next
    case False
    then have c: "children_of h w = []"
      by (simp add: children_of_def getattr_def lookup_obj_def)
    have "{..<length h} - insert w visited = {..<length h} - visited"
      using False by auto
    then show ?thesis using c by (simp del: Diff_insert0 Diff_insert Diff_insert2 card_Diff_insert)
  qed
qed

text \<open>
  The first widget of a list that exposes \<^verbatim>\<open>Modules\<close>, with the value of the
  attribute; and a graph all of whose objects are widgets: each has
  \<^verbatim>\<open>children()\<close>, and every child is an object of the graph.
\<close>

definition first_with_Modules :: "obj list \<Rightarrow> nat list \<Rightarrow> (nat \<times> dict) option" where
  "first_with_Modules h ws =
     (case find (\<lambda>w. hasattr Modules h (Some w)) ws of
        None \<Rightarrow> None
      | Some w \<Rightarrow> map_option (Pair w) (getattr Modules h (Some w)))"

definition widget_graph :: "obj list \<Rightarrow> bool" where
  "widget_graph h =
     list_all (\<lambda>ob. case children ob of
                      None \<Rightarrow> False
                    | Some cs \<Rightarrow> list_all (\<lambda>c. c < length h) cs) h"

text \<open>
  How a lookup result changes when the dictionary held by the object \<open>m\<close> is replaced
  by \<open>d\<close>.
\<close>

definition relabel :: "ref \<Rightarrow> dict \<Rightarrow> (nat \<times> dict) option \<Rightarrow> (nat \<times> dict) option" where
  "relabel m d res = map_option (\<lambda>(x, dx). (x, if Some x = m then d else dx)) res"

definition relabel_ref :: "ref \<Rightarrow> dict \<Rightarrow> (ref \<times> dict) option \<Rightarrow> (ref \<times> dict) option" where
  "relabel_ref m d res = map_option (\<lambda>(x, dx). (x, if x = m then d else dx)) res"

section \<open>Concrete worlds\<close>

text \<open>
  A main window of class \<^verbatim>\<open>OsdagMainWindow\<close> that is the only top-level widget and
  holds a registry whose only category is the given "Compression Member" list.
\<close>

definition blank_obj :: obj where
  "blank_obj = \<lparr>cls = ''QWidget'', py_id = 0, alive = True, Modules = None, ui = None, children = Some [],
     parent = None, show_compression_module = False, module_window = None,
     module_name_attr = None, myStackedWidget = None, pages = [], findChild = Some [],
     button_groups = [], grid_layouts = [], gridLayout = None, methods = []\<rparr>"

definition strut_entry :: pyval where
  "strut_entry = PTuple [PStr ''Struts in Trusses'', PStr ''strut.png'', PStr ''Strut_Design'']"

definition example_world :: "pyval list \<Rightarrow> world" where
  "example_world xs =
     \<lparr>objs = [blank_obj\<lparr>cls := ''OsdagMainWindow'',
                         Modules := Some [(''Compression Member'', PList xs)],
                         show_compression_module := True\<rparr>],
      top_level = [0], main_win = None, trace = [],
      resource_image = Some ''images/CompressionMembers_ColumnsInFrames.png'',
      plugin_dir = ''plugin'', plugin_parent_dir = ''plugins'', sys_path = [],
      frames_left = 900,
      ColumnDesign_importable = True, Submodule_Widget_raises = None\<rparr>"

definition handler :: pyval where
  "handler = PCallable ''show_compression_module''"

text \<open>
  No top-level widget at all and \<^verbatim>\<open>main_win\<close> still \<^verbatim>\<open>None\<close>, as
  \<^verbatim>\<open>__init__\<close> leaves it.
\<close>

definition no_window_world :: world where
  "no_window_world =
     \<lparr>objs = [], top_level = [], main_win = None, trace = [],
      resource_image = None, plugin_dir = ''plugin'', plugin_parent_dir = ''plugins'',
      sys_path = [], frames_left = 900, ColumnDesign_importable = False, Submodule_Widget_raises = None\<rparr>"

text \<open>A main window whose registry has no "Compression Member" category.\<close>

definition other_registry_world :: world where
  "other_registry_world =
     \<lparr>objs = [blank_obj\<lparr>cls := ''OsdagMainWindow'',
                         Modules := Some [(''Tension Member'', PCallable ''show_tension_module'')]\<rparr>],
      top_level = [0], main_win = None, trace = [],
      resource_image = None, plugin_dir = ''plugin'', plugin_parent_dir = ''plugins'',
      sys_path = [], frames_left = 900, ColumnDesign_importable = False, Submodule_Widget_raises = None\<rparr>"

text \<open>
  A page with the "Strut_Design" radio button and no "Column_Design" one: object 0 is the
  page, object 1 the button.
\<close>

definition compression_page_graph :: "obj list" where
  "compression_page_graph =
     [blank_obj\<lparr>findChild := Some [(''Strut_Design'', 1)], children := Some [1]\<rparr>,
      blank_obj\<lparr>cls := ''QRadioButton'', parent := Some 0\<rparr>]"

text \<open>
  A main window that holds the given registry and still records an open column module:
  \<^verbatim>\<open>module_name\<close> is "Column" and \<^verbatim>\<open>module_window\<close> is the wrapper of a window
  that the toolkit has deleted since.
\<close>

definition stale_window_world :: "dict \<Rightarrow> world" where
  "stale_window_world registry =
     \<lparr>objs = [blank_obj\<lparr>cls := ''OsdagMainWindow'', py_id := 1,
                         Modules := Some registry, show_compression_module := True,
                         module_window := Some (Some 1),
                         module_name_attr := Some (PStr ''Column'')\<rparr>,
              blank_obj\<lparr>cls := ''Ui_ModuleWindow'', py_id := 2, alive := False\<rparr>],
      top_level = [0], main_win = None, trace = [],
      resource_image = Some ''images/CompressionMembers_ColumnsInFrames.png'',
      plugin_dir = ''plugin'', plugin_parent_dir = ''plugins'', sys_path = [],
      frames_left = 900, ColumnDesign_importable = True, Submodule_Widget_raises = None\<rparr>"

text \<open>
  A widget graph with a cycle, every object with an address of its own: 0 and 1 are each
  other's child, 2 is a child of 1 and has 1 as a child again; 2 and 3 expose
  \<^verbatim>\<open>Modules\<close>.
\<close>

definition cyclic_graph :: "obj list" where
  "cyclic_graph =
     [blank_obj\<lparr>py_id := 10, children := Some [1, 3]\<rparr>,
      blank_obj\<lparr>py_id := 11, children := Some [0, 2]\<rparr>,
      blank_obj\<lparr>py_id := 12, children := Some [1],
                Modules := Some [(''Compression Member'', PList [handler])]\<rparr>,
      blank_obj\<lparr>py_id := 13, children := Some [],
                Modules := Some [(''Tension Member'', handler)]\<rparr>]"

text \<open>
  A widget tree in which an address is used twice. The window 0 has the children 1 and
  2. Widget 1 has one child, 3, and widget 2 has one child, 4; both 3 and 4 are objects
  of the toolkit's own making, for which \<^verbatim>\<open>children()\<close> makes a wrapper each time.
  The wrapper of 3 is gone when the loop over the children of 1 ends, and the wrapper of
  4, made later, gets its address. Widget 5, a child of 4, holds the registry.
\<close>

definition reused_id_graph :: "obj list" where
  "reused_id_graph =
     [blank_obj\<lparr>py_id := 100, children := Some [1, 2]\<rparr>,
      blank_obj\<lparr>py_id := 101, children := Some [3]\<rparr>,
      blank_obj\<lparr>py_id := 102, children := Some [4]\<rparr>,
      blank_obj\<lparr>py_id := 200, children := Some []\<rparr>,
      blank_obj\<lparr>py_id := 200, children := Some [5]\<rparr>,
      blank_obj\<lparr>py_id := 103, children := Some [],
                Modules := Some [(''Compression Member'', PList [handler])]\<rparr>]"

text \<open>
  A chain of \<open>n\<close> nested widgets, each the only child of the one before, with the
  registry on the innermost one, object \<open>n\<close>.
\<close>

definition chain :: "nat \<Rightarrow> obj list" where
  "chain n =
     map (\<lambda>k. blank_obj\<lparr>py_id := k, children := Some [Suc k]\<rparr>) [0..<n] @
     [blank_obj\<lparr>py_id := n, children := Some [],
                Modules := Some [(''Compression Member'', PList [handler])]\<rparr>]"

section \<open>Replacing a registry leaves the lookups where they were\<close>

lemma lookup_obj_set_Modules:
  "lookup_obj (set_Modules m d h) r =
     map_option (\<lambda>ob. if r = m then ob\<lparr>Modules := Some d\<rparr> else ob) (lookup_obj h r)"
  by (auto simp: lookup_obj_def set_Modules_def split: option.splits)

lemma getattr_set_Modules_other:
  "(\<And>ob x. f (ob\<lparr>Modules := x\<rparr>) = f ob) \<Longrightarrow> getattr f (set_Modules m d h) r = getattr f h r"
  by (cases "lookup_obj h r") (simp_all add: getattr_def lookup_obj_set_Modules)

lemma getattr_Modules_set_Modules:
  "getattr Modules (set_Modules m d h) r =
     (if r = m \<and> lookup_obj h r \<noteq> None then Some d else getattr Modules h r)"
  by (cases "lookup_obj h r") (simp_all add: getattr_def lookup_obj_set_Modules)

lemma hasattr_Modules_set_Modules:
  "hasattr Modules h m \<Longrightarrow> hasattr Modules (set_Modules m d h) r = hasattr Modules h r"
  by (auto simp: hasattr_def getattr_Modules_set_Modules)

lemma hasattr_set_Modules_other:
  "(\<And>ob x. f (ob\<lparr>Modules := x\<rparr>) = f ob) \<Longrightarrow> hasattr f (set_Modules m d h) r = hasattr f h r"
  by (simp add: hasattr_def getattr_set_Modules_other)

lemma find_main_window_direct_set_Modules:
  "hasattr Modules h m \<Longrightarrow>
     find_main_window_direct (set_Modules m d h) ws = find_main_window_direct h ws"
  by (induction ws)
     (simp_all add: hasattr_Modules_set_Modules getattr_set_Modules_other hasattr_set_Modules_other
        split: option.splits)

lemma cls_set_Modules:
  "map_option cls (lookup_obj (set_Modules m d h) r) = map_option cls (lookup_obj h r)"
  by (cases "lookup_obj h r") (simp_all add: lookup_obj_set_Modules)

lemma find_main_window_by_class_set_Modules:
  "find_main_window_by_class (set_Modules m d h) ws = find_main_window_by_class h ws"
  by (induction ws) (simp_all only: find_main_window_by_class.simps cls_set_Modules)

lemma find_main_window_set_Modules:
  "hasattr Modules h m \<Longrightarrow> find_main_window (set_Modules m d h) ws = find_main_window h ws"
  by (simp add: find_main_window_def find_main_window_direct_set_Modules
        find_main_window_by_class_set_Modules split: option.splits)

lemma id_of_set_Modules: "id_of (set_Modules m d h) w = id_of h w"
  by (cases "lookup_obj h (Some w)") (simp_all add: id_of_def lookup_obj_set_Modules)

lemma search_set_Modules:
  assumes "hasattr Modules h m"
  shows "search_for_modules (set_Modules m d h) f w V =
           map_sum id (\<lambda>(res, V'). (relabel m d res, V')) (search_for_modules h f w V)"
    and "search_children (set_Modules m d h) f cs V =
           map_sum id (\<lambda>(res, V'). (relabel m d res, V')) (search_children h f cs V)"
  using assms
proof (induction h f w V and h f cs V rule: search_for_modules_search_children.induct)
  case (1 h widget visited)
  show ?case by simp
next
  case (2 h frames widget visited)
  show ?case
  proof (cases "id_of h widget \<in> visited")
    case True
    then show ?thesis by (simp add: id_of_set_Modules relabel_def)
  next
    case False
    show ?thesis
    proof (cases "getattr Modules h (Some widget)")
      case None
      then have n': "getattr Modules (set_Modules m d h) (Some widget) = None"
        using "2.prems" by (auto simp: getattr_Modules_set_Modules hasattr_def)
      show ?thesis
      proof (cases "getattr children h (Some widget)")
        case None' : None
        then show ?thesis using False None n'
          by (simp add: id_of_set_Modules getattr_set_Modules_other)
      next
        case (Some cs)
        then show ?thesis using False None n' "2.IH"[OF False None Some "2.prems"]
          by (simp add: id_of_set_Modules getattr_set_Modules_other)
      qed
    next
      case (Some dx)
      then have "lookup_obj h (Some widget) \<noteq> None"
        by (auto simp: getattr_def split: option.splits)
      then have "getattr Modules (set_Modules m d h) (Some widget) =
                   Some (if Some widget = m then d else dx)"
        using Some by (simp add: getattr_Modules_set_Modules)
      then show ?thesis using False Some
        by (simp add: id_of_set_Modules relabel_def)
    qed
  qed
next
  case (3 h frames visited)
  then show ?case by (simp add: relabel_def)
next
  case (4 h frames child cs visited)
  show ?case
  proof (cases "search_for_modules h frames child visited")
    case (Inl e)
    then show ?thesis using "4.IH"(1)[OF "4.prems"] by simp
  next
    case (Inr b)
    obtain res v where b: "b = (res, v)" by (cases b)
    show ?thesis
    proof (cases res)
      case None
      then show ?thesis
        using Inr b "4.IH"(1)[OF "4.prems"] "4.IH"(2)[OF Inr b[symmetric] None "4.prems"]
        by (simp add: relabel_def)
    next
      case (Some r)
      then show ?thesis using Inr b "4.IH"(1)[OF "4.prems"]
        by (simp add: relabel_def split: prod.splits)
    qed
  qed
qed

lemma search_found_has_Modules:
  "search_for_modules h f w V = Inr (Some (x, d), V') \<Longrightarrow> getattr Modules h (Some x) = Some d"
  "search_children h f cs V = Inr (Some (x, d), V') \<Longrightarrow> getattr Modules h (Some x) = Some d"
proof (induction h f w V and h f cs V arbitrary: V' and V'
       rule: search_for_modules_search_children.induct)
  case (1 h widget visited)
  then show ?case by simp
next
  case (2 h frames widget visited)
  then show ?case
    by (auto split: if_splits option.splits)
next
  case (3 h frames visited)
  then show ?case by simp
next
  case (4 h frames child cs visited)
  then show ?case
    by (auto split: sum.splits option.splits prod.splits)
qed

lemma find_modules_dict_found:
  "find_modules_dict h f r = Inr (Some (m, d)) \<Longrightarrow> getattr Modules h m = Some d"
  by (auto simp: find_modules_dict_def search_found_has_Modules
           split: option.splits sum.splits prod.splits if_splits)

lemma getattr_Some_lookup: "getattr f h r = Some x \<Longrightarrow> lookup_obj h r \<noteq> None"
  by (auto simp: getattr_def split: option.splits)

lemma find_modules_dict_set_Modules:
  assumes "hasattr Modules h m"
  shows "find_modules_dict (set_Modules m d h) f r =
           map_sum id (relabel_ref m d) (find_modules_dict h f r)"
proof (cases "getattr Modules h r")
  case (Some dr)
  then show ?thesis
    by (simp add: find_modules_dict_def getattr_Modules_set_Modules getattr_Some_lookup relabel_ref_def)
next
  case None
  then have n': "getattr Modules (set_Modules m d h) r = None"
    using assms by (auto simp: getattr_Modules_set_Modules hasattr_def)
  show ?thesis
  proof (cases "getattr ui h r")
    case nu: None
    show ?thesis
    proof (cases r)
      case rn: None
      then show ?thesis using None n' nu
        by (simp add: find_modules_dict_def getattr_set_Modules_other)
    next
      case (Some w)
      then show ?thesis using None n' nu search_set_Modules(1)[OF assms, of d f w "{}"]
        by (cases "search_for_modules h f w {}")
           (auto simp: find_modules_dict_def getattr_set_Modules_other relabel_ref_def relabel_def
                 split: option.splits)
    qed
  next
    case (Some u)
    show ?thesis
    proof (cases "getattr Modules h u")
      case um: None
      then have um': "getattr Modules (set_Modules m d h) u = None"
        using assms by (auto simp: getattr_Modules_set_Modules hasattr_def)
      show ?thesis
      proof (cases r)
        case rn: None
        then show ?thesis using None n' Some um um'
          by (simp add: find_modules_dict_def getattr_set_Modules_other)
      next
        case rs: (Some w)
        then show ?thesis using None n' Some um um' search_set_Modules(1)[OF assms, of d f w "{}"]
          by (cases "search_for_modules h f w {}")
             (auto simp: find_modules_dict_def getattr_set_Modules_other relabel_ref_def relabel_def
                   split: option.splits)
      qed
    next
      case ud: (Some du)
      then show ?thesis using None n' Some
        by (simp add: find_modules_dict_def getattr_set_Modules_other getattr_Modules_set_Modules
              getattr_Some_lookup relabel_ref_def)
    qed
  qed
qed

lemma emit_fields [simp]:
  "objs (emit evs s) = objs s" "top_level (emit evs s) = top_level s"
  "main_win (emit evs s) = main_win s" "resource_image (emit evs s) = resource_image s"
  "plugin_dir (emit evs s) = plugin_dir s" "plugin_parent_dir (emit evs s) = plugin_parent_dir s"
  "sys_path (emit evs s) = sys_path s" "frames_left (emit evs s) = frames_left s"
  "ColumnDesign_importable (emit evs s) = ColumnDesign_importable s"
  "Submodule_Widget_raises (emit evs s) = Submodule_Widget_raises s"
  "trace (emit evs s) = trace s @ evs"
  by (simp_all add: emit_def)

lemma snd_update_live_ui:
  "snd (update_live_ui s r) = emit (snd (update_live_ui_events s r)) s"
  by (simp add: update_live_ui_def split: prod.splits)

lemma located_registryD:
  "located_registry s = Some (m, d) \<Longrightarrow>
     find_modules_dict (objs s) (frames_left s) (real_main_window s) = Inr (Some (m, d)) \<and> d \<noteq> []"
  by (auto simp: located_registry_def usable_registry_def split: sum.splits option.splits if_splits)

lemma located_registryI:
  "find_modules_dict (objs s) (frames_left s) (real_main_window s) = Inr (Some (m, d)) \<Longrightarrow> d \<noteq> [] \<Longrightarrow>
     located_registry s = Some (m, d)"
  by (simp add: located_registry_def usable_registry_def)

lemma located_registry_hasattr:
  "located_registry s = Some (m, d) \<Longrightarrow> hasattr Modules (objs s) m"
  by (auto dest!: located_registryD find_modules_dict_found simp: hasattr_def)

lemma located_registry_after_update:
  assumes loc: "located_registry s = Some (m, d)" and ne: "d' \<noteq> []"
    and o: "objs s' = set_Modules m d' (objs s)" and t: "top_level s' = top_level s"
    and w: "main_win s' = main_win s \<or> main_win s' = real_main_window s"
    and fr: "frames_left s' = frames_left s"
  shows "located_registry s' = Some (m, d')"
proof -
  have h: "hasattr Modules (objs s) m" using loc by (rule located_registry_hasattr)
  have fm: "find_main_window (objs s') (top_level s') = find_main_window (objs s) (top_level s)"
    by (simp add: o t find_main_window_set_Modules[OF h])
  have r: "real_main_window s' = real_main_window s"
    using w by (auto simp: real_main_window_def fm split: option.splits)
  have "find_modules_dict (objs s') (frames_left s') (real_main_window s') = Inr (Some (m, d'))"
    using located_registryD[OF loc]
    by (simp add: r o fr find_modules_dict_set_Modules[OF h] relabel_ref_def)
  then show ?thesis using ne by (rule located_registryI)
qed

lemma get_image_path_cong:
  "resource_image s' = resource_image s \<Longrightarrow> plugin_dir s' = plugin_dir s \<Longrightarrow>
     get_image_path s' n = get_image_path s n"
  by (simp add: get_image_path_def split: option.splits)

lemma register_success:
  assumes loc: "located_registry s = Some (m, d)"
    and cm: "map_of d ''Compression Member'' = Some (PList xs)"
    and ne: "xs \<noteq> []" and cl: "callable (last xs)"
  shows "objs (snd (register s)) = set_Modules m (registered_dict s xs d) (objs s)"
    and "top_level (snd (register s)) = top_level s"
    and "main_win (snd (register s)) = real_main_window s"
    and "resource_image (snd (register s)) = resource_image s"
    and "plugin_dir (snd (register s)) = plugin_dir s"
    and "frames_left (snd (register s)) = frames_left s"
proof -
  let ?s1 = "emit [Print ''Found Modules dictionary'']
               (emit [Print ''Registering Column Plugin version 0.1 (Adds Axially Loaded Column Design module to Osdag)'',
                      Print (if find_main_window (objs s) (top_level s) = None
                             then ''Using main_win from plugin manager'' else ''Found main window'')]
                  (s\<lparr>main_win := real_main_window s\<rparr>))"
  have reg: "register s = register_column ?s1 (real_main_window s) m d"
    using located_registryD[OF loc]
    by (simp add: register_def Let_def real_main_window_def[symmetric] usable_registry_def)
  have gip: "get_image_path ?s1 ''column.png'' = get_image_path s ''column.png''"
    by (rule get_image_path_cong) simp_all
  show "objs (snd (register s)) = set_Modules m (registered_dict s xs d) (objs s)"
    and "top_level (snd (register s)) = top_level s"
    and "main_win (snd (register s)) = real_main_window s"
    and "resource_image (snd (register s)) = resource_image s"
    and "plugin_dir (snd (register s)) = plugin_dir s"
    and "frames_left (snd (register s)) = frames_left s"
    unfolding reg register_column_def registered_dict_def
    using cm ne cl
    by (simp_all add: gip Let_def snd_update_live_ui split: prod.splits)
qed

lemma compression_memberD:
  "compression_member s = Some v \<Longrightarrow>
     \<exists>m d. located_registry s = Some (m, d) \<and> map_of d ''Compression Member'' = Some v"
  by (auto simp: compression_member_def split: option.splits)

lemma registered_dict_props:
  "registered_dict s xs d \<noteq> []"
  "map_of (registered_dict s xs d) ''Compression Member'' =
     Some (PList (column_entry (fst (get_image_path s ''column.png'')) # xs))"
  by (cases d; simp add: registered_dict_def update_conv')+

lemma register_success_registry:
  assumes loc: "located_registry s = Some (m, d)"
    and cm: "map_of d ''Compression Member'' = Some (PList xs)"
    and ne: "xs \<noteq> []" and cl: "callable (last xs)"
  shows "located_registry (snd (register s)) = Some (m, registered_dict s xs d)"
  by (rule located_registry_after_update[OF loc registered_dict_props(1)
              register_success(1)[OF assms] register_success(2)[OF assms]])
     (simp_all add: register_success(3,6)[OF assms])

section \<open>What deactivate does to the registry\<close>

lemma located_registry_cong:
  "objs s' = objs s \<Longrightarrow> top_level s' = top_level s \<Longrightarrow> main_win s' = main_win s \<Longrightarrow>
   frames_left s' = frames_left s \<Longrightarrow>
     located_registry s' = located_registry s"
  by (simp add: located_registry_def real_main_window_def cong: option.case_cong)

lemma compression_member_cong:
  "objs s' = objs s \<Longrightarrow> top_level s' = top_level s \<Longrightarrow> main_win s' = main_win s \<Longrightarrow>
   frames_left s' = frames_left s \<Longrightarrow>
     compression_member s' = compression_member s"
  using located_registry_cong[of s' s] by (simp add: compression_member_def)

lemma deactivate_reaches_column:
  assumes cl: "module_window_closes s"
    and loc: "located_registry s = Some (m, d)"
  shows "\<exists>evs. deactivate s = deactivate_column (emit evs s) (real_main_window s) m d"
proof -
  obtain evs where c: "close_module_window (objs s) (real_main_window s) = (None, evs)"
    using cl by (cases "close_module_window (objs s) (real_main_window s)")
                (simp add: module_window_closes_def)
  have f: "find_modules_dict (objs s) (frames_left s) (real_main_window s) = Inr (Some (m, d))" and ne: "d \<noteq> []"
    using located_registryD[OF loc] by simp_all
  have "deactivate s =
          deactivate_column (emit (Print ''Deactivating Column Plugin...'' # evs) s)
            (real_main_window s) m d"
    using c f ne unfolding real_main_window_def deactivate_def Let_def
    by (simp add: usable_registry_def)
  then show ?thesis by blast
qed

lemma deactivate_column_list:
  assumes cm: "map_of d ''Compression Member'' = Some (PList xs)"
  shows "objs (snd (deactivate_column s r m d)) =
           (case find_column_entry 0 xs of
              None \<Rightarrow> objs s
            | Some i \<Rightarrow> set_Modules m (AList.update ''Compression Member'' (PList (pop i xs)) d) (objs s))"
    and "top_level (snd (deactivate_column s r m d)) = top_level s"
    and "main_win (snd (deactivate_column s r m d)) = main_win s"
    and "frames_left (snd (deactivate_column s r m d)) = frames_left s"
proof -
  define s1 where "s1 = (case find_column_entry 0 xs of
                          None \<Rightarrow> s
                        | Some i \<Rightarrow>
                            emit [Print ''Removed Column module from Compression Member module'']
                              (s\<lparr>objs := set_Modules m
                                   (AList.update ''Compression Member'' (PList (pop i xs)) d)
                                   (objs s)\<rparr>))"
  define s2 where "s2 = emit [Print ''Attempting immediate UI update...''] s1"
  obtain r2 evs where u: "deactivate_ui (objs s2) r = (r2, evs)"
    by (cases "deactivate_ui (objs s2) r")
  have "\<exists>evs'. snd (deactivate_column s r m d) = emit evs' s2"
    using u unfolding deactivate_column_def Let_def s2_def s1_def
    by (cases r2) (auto simp: cm)
  then obtain evs' where e: "snd (deactivate_column s r m d) = emit evs' s2" by blast
  show "objs (snd (deactivate_column s r m d)) =
           (case find_column_entry 0 xs of
              None \<Rightarrow> objs s
            | Some i \<Rightarrow> set_Modules m (AList.update ''Compression Member'' (PList (pop i xs)) d) (objs s))"
    by (cases "find_column_entry 0 xs") (simp_all add: e s2_def s1_def)
  show "top_level (snd (deactivate_column s r m d)) = top_level s"
    by (cases "find_column_entry 0 xs") (simp_all add: e s2_def s1_def)
  show "main_win (snd (deactivate_column s r m d)) = main_win s"
    by (cases "find_column_entry 0 xs") (simp_all add: e s2_def s1_def)
  show "frames_left (snd (deactivate_column s r m d)) = frames_left s"
    by (cases "find_column_entry 0 xs") (simp_all add: e s2_def s1_def)
qed

lemma deactivate_found:
  assumes cl: "module_window_closes s"
    and loc: "located_registry s = Some (m, d)"
    and cm: "map_of d ''Compression Member'' = Some (PList xs)"
  shows "objs (snd (deactivate s)) =
           (case find_column_entry 0 xs of
              None \<Rightarrow> objs s
            | Some i \<Rightarrow> set_Modules m (AList.update ''Compression Member'' (PList (pop i xs)) d) (objs s))"
    and "top_level (snd (deactivate s)) = top_level s"
    and "main_win (snd (deactivate s)) = main_win s"
    and "frames_left (snd (deactivate s)) = frames_left s"
proof -
  obtain evs where de: "deactivate s = deactivate_column (emit evs s) (real_main_window s) m d"
    using deactivate_reaches_column[OF cl loc] by blast
  show "objs (snd (deactivate s)) =
           (case find_column_entry 0 xs of
              None \<Rightarrow> objs s
            | Some i \<Rightarrow> set_Modules m (AList.update ''Compression Member'' (PList (pop i xs)) d) (objs s))"
    and "top_level (snd (deactivate s)) = top_level s"
    and "main_win (snd (deactivate s)) = main_win s"
    and "frames_left (snd (deactivate s)) = frames_left s"
    by (simp_all add: de deactivate_column_list[OF cm] cong: option.case_cong)
qed

lemma deactivate_found_registry:
  assumes cl: "module_window_closes s"
    and loc: "located_registry s = Some (m, d)"
    and cm: "map_of d ''Compression Member'' = Some (PList xs)"
  shows "compression_member (snd (deactivate s)) = Some (PList (without_first_column xs))"
proof (cases "find_column_entry 0 xs")
  case None
  then have "compression_member (snd (deactivate s)) = compression_member s"
    using deactivate_found[OF assms] by (intro compression_member_cong) simp_all
  then show ?thesis using loc cm None
    by (simp add: compression_member_def without_first_column_def)
next
  case (Some i)
  have "located_registry (snd (deactivate s)) =
          Some (m, AList.update ''Compression Member'' (PList (pop i xs)) d)"
    using deactivate_found[OF assms] Some
    by (intro located_registry_after_update[OF loc]) simp_all
  then show ?thesis using Some
    by (simp add: compression_member_def without_first_column_def update_conv')
qed

lemma find_column_entry_first:
  "i < length xs \<Longrightarrow> is_column_entry (xs ! i) \<Longrightarrow> \<forall>j<i. \<not> is_column_entry (xs ! j) \<Longrightarrow>
     find_column_entry k xs = Some (k + i)"
proof (induction xs arbitrary: i k)
  case Nil
  then show ?case by simp
next
  case (Cons x xs)
  show ?case
  proof (cases i)
    case 0
    then show ?thesis using Cons.prems by simp
  next
    case (Suc i')
    have "\<not> is_column_entry x" using Cons.prems(3) Suc by auto
    moreover have "find_column_entry (Suc k) xs = Some (Suc k + i')"
      using Cons.prems Suc by (intro Cons.IH) auto
    ultimately show ?thesis using Suc by simp
  qed
qed

lemma find_column_entry_Some:
  "find_column_entry k xs = Some i \<Longrightarrow>
     k \<le> i \<and> i - k < length xs \<and> is_column_entry (xs ! (i - k))"
proof (induction xs arbitrary: k)
  case Nil
  then show ?case by simp
next
  case (Cons x xs)
  show ?case
  proof (cases "is_column_entry x")
    case True
    then show ?thesis using Cons.prems by simp
  next
    case False
    then have "find_column_entry (Suc k) xs = Some i" using Cons.prems by simp
    from Cons.IH[OF this] show ?thesis by (auto simp: Suc_diff_Suc)
  qed
qed

lemma is_column_entry_column_entry: "is_column_entry (column_entry p)"
  by (simp add: is_column_entry_def column_entry_def)

lemma without_first_column_registered:
  "without_first_column (column_entry p # xs) = xs"
  by (simp add: without_first_column_def is_column_entry_column_entry pop_def)

lemma callable_not_column_entry: "callable v \<Longrightarrow> \<not> is_column_entry v"
  by (cases v) (simp_all add: is_column_entry_def)

lemma without_first_column_trailing:
  assumes "trailing_callable xs"
  shows "trailing_callable (without_first_column xs)"
proof (cases "find_column_entry 0 xs")
  case None
  then show ?thesis using assms by (simp add: without_first_column_def)
next
  case (Some i)
  have ne: "xs \<noteq> []" and cl: "callable (last xs)"
    using assms by (simp_all add: trailing_callable_def)
  from find_column_entry_Some[OF Some] have i: "i < length xs" and ci: "is_column_entry (xs ! i)"
    by simp_all
  have "i \<noteq> length xs - 1"
    using ci cl ne callable_not_column_entry by (auto simp: last_conv_nth)
  then have lt: "Suc i < length xs" using i by simp
  then have "drop (Suc i) xs \<noteq> []" by simp
  moreover have "last (drop (Suc i) xs) = last xs" using lt by simp
  ultimately show ?thesis using cl Some
    by (simp add: trailing_callable_def without_first_column_def pop_def)
qed

lemma qt_call_set_Modules: "qt_call (set_Modules m d h) r = qt_call h r"
  by (cases "lookup_obj h r") (simp_all add: qt_call_def lookup_obj_set_Modules)

lemma call_set_Modules: "call (set_Modules m d h) r evs = call h r evs"
  by (simp add: call_def qt_call_set_Modules)

lemma close_module_window_set_Modules:
  "close_module_window (set_Modules m d h) r = close_module_window h r"
proof -
  have a: "getattr module_window (set_Modules m d h) r = getattr module_window h r"
    by (rule getattr_set_Modules_other) simp
  have b: "getattr module_name_attr (set_Modules m d h) r = getattr module_name_attr h r"
    by (rule getattr_set_Modules_other) simp
  show ?thesis unfolding close_module_window_def a b call_set_Modules ..
qed

lemma real_main_window_after_register:
  assumes loc: "located_registry s = Some (m, d)"
    and cm: "map_of d ''Compression Member'' = Some (PList xs)"
    and ne: "xs \<noteq> []" and cl: "callable (last xs)"
  shows "real_main_window (snd (register s)) = real_main_window s"
proof -
  have h: "hasattr Modules (objs s) m" using loc by (rule located_registry_hasattr)
  show ?thesis
    by (auto simp: real_main_window_def register_success(1,2,3)[OF assms]
          find_main_window_set_Modules[OF h] split: option.splits)
qed

lemma module_window_closes_after_register:
  assumes loc: "located_registry s = Some (m, d)"
    and cm: "map_of d ''Compression Member'' = Some (PList xs)"
    and ne: "xs \<noteq> []" and cl: "callable (last xs)"
  shows "module_window_closes (snd (register s)) = module_window_closes s"
  by (simp add: module_window_closes_def real_main_window_after_register[OF assms]
        register_success(1)[OF assms] close_module_window_set_Modules)

lemma register_then_deactivate_list:
  assumes cmp: "compression_member s = Some (PList xs)"
    and ne: "xs \<noteq> []" and cl: "callable (last xs)"
    and mw: "module_window_closes s"
  shows "compression_member (snd (deactivate (snd (register s)))) = Some (PList xs)"
proof -
  obtain m d where loc: "located_registry s = Some (m, d)"
    and cm: "map_of d ''Compression Member'' = Some (PList xs)"
    using compression_memberD[OF cmp] by blast
  let ?s' = "snd (register s)"
  have loc': "located_registry ?s' = Some (m, registered_dict s xs d)"
    by (rule register_success_registry[OF loc cm ne cl])
  have mw': "module_window_closes ?s'"
    using mw by (simp add: module_window_closes_after_register[OF loc cm ne cl])
  show ?thesis
    by (simp add: deactivate_found_registry[OF mw' loc' registered_dict_props(2)]
          without_first_column_registered)
qed

lemma register_twice_list:
  assumes cmp: "compression_member s = Some (PList xs)"
    and ne: "xs \<noteq> []" and cl: "callable (last xs)"
  shows "compression_member (snd (register (snd (register s)))) =
           Some (PList (column_entry (fst (get_image_path s ''column.png'')) #
                        column_entry (fst (get_image_path s ''column.png'')) # xs))"
proof -
  obtain m d where loc: "located_registry s = Some (m, d)"
    and cm: "map_of d ''Compression Member'' = Some (PList xs)"
    using compression_memberD[OF cmp] by blast
  let ?s' = "snd (register s)"
  let ?e = "column_entry (fst (get_image_path s ''column.png''))"
  have loc': "located_registry ?s' = Some (m, registered_dict s xs d)"
    by (rule register_success_registry[OF loc cm ne cl])
  have cm': "map_of (registered_dict s xs d) ''Compression Member'' = Some (PList (?e # xs))"
    by (rule registered_dict_props(2))
  have ne': "?e # xs \<noteq> []" by simp
  have cl': "callable (last (?e # xs))" using ne cl by simp
  have g: "get_image_path ?s' ''column.png'' = get_image_path s ''column.png''"
    by (rule get_image_path_cong) (rule register_success(4,5)[OF loc cm ne cl])+
  have "located_registry (snd (register ?s')) =
          Some (m, registered_dict ?s' (?e # xs) (registered_dict s xs d))"
    by (rule register_success_registry[OF loc' cm' ne' cl'])
  then show ?thesis
    by (simp add: compression_member_def registered_dict_props(2) g)
qed

lemma register_reaches_column:
  assumes loc: "located_registry s = Some (m, d)"
  shows "register s = register_column (register_entry_state s) (real_main_window s) m d"
  using located_registryD[OF loc]
  by (simp add: register_def Let_def real_main_window_def[symmetric] usable_registry_def
        register_entry_state_def)

lemma register_without_handler:
  assumes loc: "located_registry s = Some (m, d)"
    and cm: "map_of d ''Compression Member'' = Some (PList xs)"
    and ne: "xs \<noteq> []" and ncl: "\<not> callable (last xs)"
  shows "fst (register s) = None"
    and "objs (snd (register s)) = objs s"
    and "last (trace (snd (register s))) =
           Print ''Error: Compression Member module doesn't have a handler function''"
  unfolding register_reaches_column[OF loc] register_column_def
  using cm ne ncl by (simp_all add: register_entry_state_def)

lemma deactivate_close_raises:
  assumes "\<not> module_window_closes s"
  shows "\<exists>evs. snd (deactivate s) = emit evs s"
proof -
  obtain e evs where c: "close_module_window (objs s) (real_main_window s) = (Some e, evs)"
    using assms by (cases "close_module_window (objs s) (real_main_window s)")
                   (auto simp: module_window_closes_def)
  have "snd (deactivate s) = emit (Print ''Deactivating Column Plugin...'' # evs) s"
    using c unfolding real_main_window_def deactivate_def Let_def by simp
  then show ?thesis by blast
qed

lemma deactivate_without_key:
  assumes f: "find_modules_dict (objs s) (frames_left s) (real_main_window s) = Inr (Some (m, d))"
    and cm: "map_of d ''Compression Member'' = None"
  shows "objs (snd (deactivate s)) = objs s"
    and "module_window_closes s \<Longrightarrow> fst (deactivate s) = None"
    and "module_window_closes s \<Longrightarrow>
           Print (if d = [] then ''Error: Could not find Modules dictionary''
                  else ''Error: Compression Member module not found in Modules dictionary'')
             \<in> set (drop (length (trace s)) (trace (snd (deactivate s))))"
proof -
  show "objs (snd (deactivate s)) = objs s"
  proof (cases "module_window_closes s")
    case False
    then show ?thesis using deactivate_close_raises by fastforce
  next
    case True
    then obtain evs where c: "close_module_window (objs s) (real_main_window s) = (None, evs)"
      by (cases "close_module_window (objs s) (real_main_window s)")
         (simp add: module_window_closes_def)
    show ?thesis
      using c f cm unfolding real_main_window_def deactivate_def Let_def
      by (simp add: usable_registry_def deactivate_column_def)
  qed
next
  assume "module_window_closes s"
  then obtain evs where c: "close_module_window (objs s) (real_main_window s) = (None, evs)"
    by (cases "close_module_window (objs s) (real_main_window s)")
       (simp add: module_window_closes_def)
  show "fst (deactivate s) = None"
    using c f cm unfolding real_main_window_def deactivate_def Let_def
    by (simp add: usable_registry_def deactivate_column_def)
  show "Print (if d = [] then ''Error: Could not find Modules dictionary''
               else ''Error: Compression Member module not found in Modules dictionary'')
          \<in> set (drop (length (trace s)) (trace (snd (deactivate s))))"
    using c f cm unfolding real_main_window_def deactivate_def Let_def
    by (simp add: usable_registry_def deactivate_column_def)
qed

lemma handler_in_placeD:
  "handler_in_place s \<Longrightarrow> \<exists>xs. compression_member s = Some (PList xs) \<and> trailing_callable xs"
  by (auto simp: handler_in_place_def split: option.splits pyval.splits)

lemma handler_in_place_register:
  assumes "handler_in_place s"
  shows "handler_in_place (snd (register s))"
proof -
  obtain xs where cmp: "compression_member s = Some (PList xs)" and t: "trailing_callable xs"
    using handler_in_placeD[OF assms] by blast
  obtain m d where loc: "located_registry s = Some (m, d)"
    and cm: "map_of d ''Compression Member'' = Some (PList xs)"
    using compression_memberD[OF cmp] by blast
  have ne: "xs \<noteq> []" and cl: "callable (last xs)" using t by (simp_all add: trailing_callable_def)
  show ?thesis
    using ne cl
    by (simp add: handler_in_place_def compression_member_def
          register_success_registry[OF loc cm ne cl] registered_dict_props(2) trailing_callable_def)
qed

lemma handler_in_place_deactivate:
  assumes "handler_in_place s"
  shows "handler_in_place (snd (deactivate s))"
proof -
  obtain xs where cmp: "compression_member s = Some (PList xs)" and t: "trailing_callable xs"
    using handler_in_placeD[OF assms] by blast
  obtain m d where loc: "located_registry s = Some (m, d)"
    and cm: "map_of d ''Compression Member'' = Some (PList xs)"
    using compression_memberD[OF cmp] by blast
  show ?thesis
  proof (cases "module_window_closes s")
    case True
    show ?thesis
      by (simp add: handler_in_place_def deactivate_found_registry[OF True loc cm]
            without_first_column_trailing[OF t])
  next
    case False
    then obtain evs where "snd (deactivate s) = emit evs s"
      using deactivate_close_raises by blast
    then have "compression_member (snd (deactivate s)) = compression_member s"
      by (intro compression_member_cong) simp_all
    then show ?thesis using assms by (simp add: handler_in_place_def)
  qed
qed

lemma deactivate_page_no_column:
  assumes "getattr findChild h page = Some buttons" and "qt_call h page = None"
    and "map_of buttons ''Column_Design'' = None"
  shows "deactivate_page h page =
           (None, if map_of buttons ''Strut_Design'' = None then []
                  else [Print ''Found Compression Member page''])"
  using assms by (simp add: deactivate_page_def say_def split: option.splits)

section \<open>The recursive search is a depth-first traversal\<close>

lemma first_with_Modules_Cons:
  "first_with_Modules h (w # ws) =
     (case getattr Modules h (Some w) of Some d \<Rightarrow> Some (w, d) | None \<Rightarrow> first_with_Modules h ws)"
  by (simp add: first_with_Modules_def hasattr_def split: option.splits)

lemma widget_graph_children:
  "widget_graph h \<Longrightarrow> w < length h \<Longrightarrow>
     \<exists>cs. getattr children h (Some w) = Some cs \<and> (\<forall>c\<in>set cs. c < length h)"
proof -
  assume g: "widget_graph h" and w: "w < length h"
  have "h ! w \<in> set h" using w by simp
  with g have "case children (h ! w) of None \<Rightarrow> False
                | Some cs \<Rightarrow> list_all (\<lambda>c. c < length h) cs"
    unfolding widget_graph_def list_all_iff by blast
  then obtain cs where "children (h ! w) = Some cs" and "\<forall>c\<in>set cs. c < length h"
    by (auto simp: list_all_iff split: option.splits)
  then show ?thesis using w by (simp add: getattr_def lookup_obj_def)
qed

text \<open>
  When no address is used twice, a number is in \<open>visited\<close> exactly when its widget has
  been visited.
\<close>

lemma id_of_mem_image:
  assumes "distinct (map py_id h)" and "w < length h" and "W \<subseteq> {..<length h}"
  shows "(id_of h w \<in> id_of h ` W) = (w \<in> W)"
proof
  assume "id_of h w \<in> id_of h ` W"
  then obtain v where v: "v \<in> W" and e: "id_of h w = id_of h v" by blast
  have vl: "v < length h" using v assms(3) by auto
  have "map py_id h ! w = map py_id h ! v"
    using e assms(2) vl by (simp add: id_of_def lookup_obj_def)
  moreover have "w < length (map py_id h)" and "v < length (map py_id h)"
    using assms(2) vl by simp_all
  ultimately have "w = v"
    using nth_eq_iff_index_eq[OF assms(1)] by blast
  then show "w \<in> W" using v by simp
next
  assume "w \<in> W"
  then show "id_of h w \<in> id_of h ` W" by blast
qed

lemma unvisited_less:
  assumes "w < n" and "w \<notin> W" and "card ({..<n} - W) < Suc f"
  shows "card ({..<n::nat} - insert w W) < f"
proof -
  have "{..<n} - insert w W \<subset> {..<n} - W" using assms(1,2) by blast
  moreover have "finite ({..<n} - W)" by simp
  ultimately have "card ({..<n} - insert w W) < card ({..<n} - W)"
    by (rule psubset_card_mono[rotated])
  then show ?thesis using assms(3) by linarith
qed

lemma unvisited_mono:
  assumes "W \<subseteq> W'" and "card ({..<n::nat} - W) < f"
  shows "card ({..<n} - W') < f"
proof -
  have "card ({..<n} - W') \<le> card ({..<n} - W)"
    using assms(1) by (intro card_mono) auto
  then show ?thesis using assms(2) by linarith
qed

lemma search_is_dfs:
  "widget_graph h \<Longrightarrow> distinct (map py_id h) \<Longrightarrow> w < length h \<Longrightarrow> W \<subseteq> {..<length h} \<Longrightarrow>
   V = id_of h ` W \<Longrightarrow> card ({..<length h} - W) < f \<Longrightarrow>
     \<exists>res W'. search_for_modules h f w V = Inr (res, id_of h ` W') \<and>
       W \<subseteq> W' \<and> W' \<subseteq> {..<length h} \<and>
       (\<forall>pending. first_with_Modules h (dfs_order h (w # pending) W) =
          (case res of Some r \<Rightarrow> Some r | None \<Rightarrow> first_with_Modules h (dfs_order h pending W')))"
  "widget_graph h \<Longrightarrow> distinct (map py_id h) \<Longrightarrow> \<forall>c\<in>set cs. c < length h \<Longrightarrow>
   W \<subseteq> {..<length h} \<Longrightarrow> V = id_of h ` W \<Longrightarrow> card ({..<length h} - W) < f \<Longrightarrow>
     \<exists>res W'. search_children h f cs V = Inr (res, id_of h ` W') \<and>
       W \<subseteq> W' \<and> W' \<subseteq> {..<length h} \<and>
       (\<forall>pending. first_with_Modules h (dfs_order h (cs @ pending) W) =
          (case res of Some r \<Rightarrow> Some r | None \<Rightarrow> first_with_Modules h (dfs_order h pending W')))"
proof (induction h f w V and h f cs V arbitrary: W and W
       rule: search_for_modules_search_children.induct)
  case (1 h widget visited)
  then show ?case by simp
next
  case (2 h frames widget visited)
  have mem: "(id_of h widget \<in> visited) = (widget \<in> W)"
    using id_of_mem_image[OF "2.prems"(2,3,4)] "2.prems"(5) by simp
  show ?case
  proof (cases "widget \<in> W")
    case True
    then show ?thesis using mem "2.prems"(4,5) by auto
  next
    case False
    have ins: "insert (id_of h widget) visited = id_of h ` insert widget W"
      using "2.prems"(5) by simp
    have sub: "insert widget W \<subseteq> {..<length h}" using "2.prems"(3,4) by simp
    show ?thesis
    proof (cases "getattr Modules h (Some widget)")
      case (Some d)
      have "search_for_modules h (Suc frames) widget visited =
              Inr (Some (widget, d), id_of h ` insert widget W)"
        using False mem Some ins by simp
      moreover have "\<forall>pending. first_with_Modules h (dfs_order h (widget # pending) W) =
                       Some (widget, d)"
        using False Some by (simp add: first_with_Modules_Cons)
      ultimately show ?thesis using sub by (intro exI[of _ "Some (widget, d)"] exI[of _ "insert widget W"]) auto
    next
      case None
      obtain cs where cs: "getattr children h (Some widget) = Some cs"
        and inb: "\<forall>c\<in>set cs. c < length h"
        using widget_graph_children[OF "2.prems"(1,3)] by blast
      have nf: "id_of h widget \<notin> visited" using False mem by simp
      have cd: "card ({..<length h} - insert widget W) < frames"
        using unvisited_less[OF "2.prems"(3) False "2.prems"(6)] .
      from "2.IH"[OF nf None cs "2.prems"(1,2) inb sub ins cd]
      obtain res W' where s: "search_children h frames cs (insert (id_of h widget) visited)
                                = Inr (res, id_of h ` W')"
        and w1: "insert widget W \<subseteq> W'" and w2: "W' \<subseteq> {..<length h}"
        and f: "\<And>pending. first_with_Modules h (dfs_order h (cs @ pending) (insert widget W)) =
          (case res of Some r \<Rightarrow> Some r | None \<Rightarrow> first_with_Modules h (dfs_order h pending W'))"
        by blast
      have "search_for_modules h (Suc frames) widget visited = Inr (res, id_of h ` W')"
        using nf None cs s by simp
      moreover have "first_with_Modules h (dfs_order h (widget # pending) W) =
          (case res of Some r \<Rightarrow> Some r | None \<Rightarrow> first_with_Modules h (dfs_order h pending W'))"
        for pending
        using False None cs f[of pending]
        by (simp add: first_with_Modules_Cons children_of_def)
      ultimately show ?thesis using w1 w2 by (intro exI[of _ res] exI[of _ W']) auto
    qed
  qed
next
  case (3 h frames visited)
  then show ?case by auto
next
  case (4 h frames child cs visited)
  have c: "child < length h" and rest: "\<forall>c\<in>set cs. c < length h"
    using "4.prems"(3) by simp_all
  from "4.IH"(1)[OF "4.prems"(1,2) c "4.prems"(4,5,6)]
  obtain res1 W1 where s1: "search_for_modules h frames child visited = Inr (res1, id_of h ` W1)"
    and a1: "W \<subseteq> W1" and b1: "W1 \<subseteq> {..<length h}"
    and f1: "\<And>pending. first_with_Modules h (dfs_order h (child # pending) W) =
          (case res1 of Some r \<Rightarrow> Some r | None \<Rightarrow> first_with_Modules h (dfs_order h pending W1))"
    by blast
  show ?case
  proof (cases res1)
    case (Some r)
    have "search_children h frames (child # cs) visited = Inr (res1, id_of h ` W1)"
      using s1 Some by simp
    moreover have "\<forall>pending. first_with_Modules h (dfs_order h ((child # cs) @ pending) W) =
          (case res1 of Some r \<Rightarrow> Some r | None \<Rightarrow> first_with_Modules h (dfs_order h pending W1))"
      using f1 Some by simp
    ultimately show ?thesis using a1 b1 by (intro exI[of _ res1] exI[of _ W1]) auto
  next
    case None
    have cd: "card ({..<length h} - W1) < frames"
      using unvisited_mono[OF a1 "4.prems"(6)] .
    from "4.IH"(2)[OF s1 refl None "4.prems"(1,2) rest b1 refl cd]
    obtain res2 W2 where s2: "search_children h frames cs (id_of h ` W1) = Inr (res2, id_of h ` W2)"
      and a2: "W1 \<subseteq> W2" and b2: "W2 \<subseteq> {..<length h}"
      and f2: "\<And>pending. first_with_Modules h (dfs_order h (cs @ pending) W1) =
          (case res2 of Some r \<Rightarrow> Some r | None \<Rightarrow> first_with_Modules h (dfs_order h pending W2))"
      by blast
    have "search_children h frames (child # cs) visited = Inr (res2, id_of h ` W2)"
      using s1 None s2 by simp
    moreover have "first_with_Modules h (dfs_order h ((child # cs) @ pending) W) =
          (case res2 of Some r \<Rightarrow> Some r | None \<Rightarrow> first_with_Modules h (dfs_order h pending W2))"
      for pending
      using f1[of "cs @ pending"] None f2[of pending] by simp
    ultimately show ?thesis using a1 a2 b2 by (intro exI[of _ res2] exI[of _ W2]) auto
  qed
qed

text \<open>
  With no address used twice and more free frames than the graph has objects, the
  recursive search returns, and what it returns is the first widget in depth-first
  order that exposes \<^verbatim>\<open>Modules\<close>, or \<^verbatim>\<open>(None, None)\<close> when that order has none.
  Cycles in the child relation do not matter.
\<close>

lemma search_for_modules_depth_first:
  assumes "widget_graph h" and "distinct (map py_id h)" and "root < length h"
    and "length h < frames"
  shows "map_sum id fst (search_for_modules h frames root {}) =
           Inr (first_with_Modules h (dfs_order h [root] {}))"
proof -
  have cd: "card ({..<length h} - {}) < frames" using assms(4) by simp
  obtain res W' where s: "search_for_modules h frames root {} = Inr (res, id_of h ` W')"
    and f: "\<And>pending. first_with_Modules h (dfs_order h (root # pending) {}) =
          (case res of Some r \<Rightarrow> Some r | None \<Rightarrow> first_with_Modules h (dfs_order h pending W'))"
    using search_is_dfs(1)[OF assms(1,2,3) _ _ cd, of "{}"] by auto
  have "first_with_Modules h (dfs_order h [root] {}) = res"
    using f[of "[]"] by (cases res) (simp_all add: first_with_Modules_def)
  then show ?thesis using s by simp
qed

text \<open>A chain that is at least as deep as the free frames ends in \<^verbatim>\<open>RecursionError\<close>.\<close>

lemma chain_nth:
  "k < n \<Longrightarrow> chain n ! k = blank_obj\<lparr>py_id := k, children := Some [Suc k]\<rparr>"
  by (simp add: chain_def nth_append)

lemma search_chain_too_deep:
  "f \<le> n - k \<Longrightarrow> \<forall>v\<in>V. v < k \<Longrightarrow> search_for_modules (chain n) f k V = Inl RecursionError"
proof (induction f arbitrary: k V)
  case 0
  then show ?case by simp
next
  case (Suc f)
  then have k: "k < n" by simp
  have len: "k < length (chain n)" using k by (simp add: chain_def)
  have ob: "lookup_obj (chain n) (Some k) = Some (blank_obj\<lparr>py_id := k, children := Some [Suc k]\<rparr>)"
    using len by (simp add: lookup_obj_def chain_nth[OF k])
  have i: "id_of (chain n) k = k" by (simp add: id_of_def ob)
  have nv: "k \<notin> V" using Suc.prems(2) by auto
  have m: "getattr Modules (chain n) (Some k) = None" by (simp add: getattr_def ob blank_obj_def)
  have c: "getattr children (chain n) (Some k) = Some [Suc k]" by (simp add: getattr_def ob)
  have "search_for_modules (chain n) f (Suc k) (insert k V) = Inl RecursionError"
    using Suc.prems by (intro Suc.IH) auto
  then show ?case using i nv m c by simp
qed

text \<open>
  The cyclic graph, with its four addresses all different: the search ends and returns
  widget 2, the first in the order 0, 1, 2, 3 that exposes \<^verbatim>\<open>Modules\<close>.
\<close>

lemma search_on_cyclic_graph:
  "map_sum id fst (search_for_modules cyclic_graph 900 0 {})
     = Inr (Some (2, [(''Compression Member'', PList [handler])]))"
proof -
  have a: "widget_graph cyclic_graph" by code_simp
  have b: "distinct (map py_id cyclic_graph)" by code_simp
  have c: "0 < length cyclic_graph" by code_simp
  have d: "length cyclic_graph < 900" by code_simp
  have e: "first_with_Modules cyclic_graph (dfs_order cyclic_graph [0] {})
             = Some (2, [(''Compression Member'', PList [handler])])"
    by code_simp
  show ?thesis using search_for_modules_depth_first[OF a b c d] e by simp
qed

text \<open>A thousand nested widgets against nine hundred free frames.\<close>

lemma search_on_deep_chain: "search_for_modules (chain 1000) 900 0 {} = Inl RecursionError"
  by (rule search_chain_too_deep) simp_all

section \<open>The claims\<close>

text \<open>
  C4 (as amended). When the "Compression Member" key is present, maps to a list, and the
  list's last element is callable, \<^verbatim>\<open>register()\<close> inserts the descriptor
  \<^verbatim>\<open>('Axially Loaded Column', image_path, 'Column_Design')\<close> at index 0 of that list,
  in front of the elements already there.
\<close>

theorem register_inserts_descriptor_at_front:
  assumes "compression_member s = Some (PList xs)" and "xs \<noteq> []" and "callable (last xs)"
  shows "compression_member (snd (register s)) =
           Some (PList (column_entry (fst (get_image_path s ''column.png'')) # xs))"
proof -
  obtain m d where loc: "located_registry s = Some (m, d)"
    and cm: "map_of d ''Compression Member'' = Some (PList xs)"
    using compression_memberD[OF assms(1)] by blast
  show ?thesis
    by (simp add: compression_member_def register_success_registry[OF loc cm assms(2,3)]
          registered_dict_props(2))
qed

text \<open>
  The same theorem at a concrete registry holding one descriptor and the handler.
\<close>

theorem register_inserts_descriptor_at_front_witness:
  "compression_member (example_world [strut_entry, PCallable ''show_compression_module''])
     = Some (PList [strut_entry, PCallable ''show_compression_module''])
   \<and> [strut_entry, PCallable ''show_compression_module''] \<noteq> []
   \<and> callable (last [strut_entry, PCallable ''show_compression_module''])
   \<and> compression_member
       (snd (register (example_world [strut_entry, PCallable ''show_compression_module''])))
     = Some (PList (column_entry (fst (get_image_path
           (example_world [strut_entry, PCallable ''show_compression_module'']) ''column.png''))
         # [strut_entry, PCallable ''show_compression_module'']))"
proof -
  have a: "compression_member (example_world [strut_entry, PCallable ''show_compression_module''])
     = Some (PList [strut_entry, PCallable ''show_compression_module''])"
    by code_simp
  have b: "[strut_entry, PCallable ''show_compression_module''] \<noteq> []" by simp
  have c: "callable (last [strut_entry, PCallable ''show_compression_module''])" by simp
  show ?thesis
    using a b c register_inserts_descriptor_at_front[OF a b c] by simp
qed

text \<open>
  C4 as stated says that the descriptor is appended to the end of the list. On a registry
  holding one descriptor and the handler, the descriptor ends up first and the list is not
  the old list followed by the descriptor.
\<close>

theorem register_append_counterexample:
  "compression_member (example_world [strut_entry, PCallable ''show_compression_module''])
     = Some (PList [strut_entry, PCallable ''show_compression_module''])
   \<and> compression_member
       (snd (register (example_world [strut_entry, PCallable ''show_compression_module''])))
     = Some (PList [column_entry ''images/CompressionMembers_ColumnsInFrames.png'',
                    strut_entry, PCallable ''show_compression_module''])
   \<and> compression_member
       (snd (register (example_world [strut_entry, PCallable ''show_compression_module''])))
     \<noteq> Some (PList ([strut_entry, PCallable ''show_compression_module''] @
                     [column_entry ''images/CompressionMembers_ColumnsInFrames.png'']))"
  by code_simp

text \<open>
  C1 (as amended). For a registry whose "Compression Member" entry is a list ending in a
  callable, \<^verbatim>\<open>register()\<close> followed by \<^verbatim>\<open>deactivate()\<close> returns the list to exactly
  its original contents, provided that \<^verbatim>\<open>deactivate()\<close> is not stopped at lines 358
  to 360: closing an open column module window raises nothing. It holds whether or not
  \<^verbatim>\<open>register()\<close> itself ended in an exception after its insertion.
\<close>

theorem register_then_deactivate_restores_list:
  assumes "compression_member s = Some (PList xs)"
    and "xs \<noteq> []" and "callable (last xs)"
    and "module_window_closes s"
  shows "compression_member (snd (deactivate (snd (register s)))) = Some (PList xs)"
  using assms by (rule register_then_deactivate_list)

text \<open>The same at a registry holding one descriptor and the handler.\<close>

theorem register_then_deactivate_restores_list_witness:
  "compression_member (example_world [strut_entry, handler]) = Some (PList [strut_entry, handler])
   \<and> [strut_entry, handler] \<noteq> [] \<and> callable (last [strut_entry, handler])
   \<and> module_window_closes (example_world [strut_entry, handler])
   \<and> compression_member (snd (deactivate (snd (register (example_world [strut_entry, handler])))))
       = Some (PList [strut_entry, handler])"
proof -
  have a: "compression_member (example_world [strut_entry, handler])
             = Some (PList [strut_entry, handler])"
    by code_simp
  have b: "[strut_entry, handler] \<noteq> []" by simp
  have c: "callable (last [strut_entry, handler])" by (simp add: handler_def)
  have d: "module_window_closes (example_world [strut_entry, handler])" by code_simp
  show ?thesis
    using a b c d register_then_deactivate_restores_list[OF a b c d] by blast
qed

text \<open>
  C1 as stated has no proviso. With a well-formed list in the registry and a stale
  module window, \<^verbatim>\<open>deactivate()\<close> raises \<^verbatim>\<open>RuntimeError\<close> at line 360, before it
  looks for the registry, and the descriptor that \<^verbatim>\<open>register()\<close> inserted stays.
\<close>

theorem register_then_deactivate_counterexample:
  "compression_member
      (stale_window_world [(''Compression Member'', PList [strut_entry, handler])])
     = Some (PList [strut_entry, handler])
   \<and> fst (deactivate (snd (register
        (stale_window_world [(''Compression Member'', PList [strut_entry, handler])]))))
     = Some RuntimeError
   \<and> compression_member (snd (deactivate (snd (register
        (stale_window_world [(''Compression Member'', PList [strut_entry, handler])])))))
     = Some (PList [column_entry ''images/CompressionMembers_ColumnsInFrames.png'',
                    strut_entry, handler])
   \<and> compression_member (snd (deactivate (snd (register
        (stale_window_world [(''Compression Member'', PList [strut_entry, handler])])))))
     \<noteq> Some (PList [strut_entry, handler])"
  by code_simp

text \<open>
  C2, at the input the claim names: no main window is found and \<^verbatim>\<open>main_win\<close> is
  \<^verbatim>\<open>None\<close>. \<^verbatim>\<open>_find_modules_dict(None)\<close> reaches \<^verbatim>\<open>None.children()\<close>, and
  the \<^verbatim>\<open>AttributeError\<close> leaves both \<^verbatim>\<open>register()\<close> and \<^verbatim>\<open>deactivate()\<close>.
\<close>

theorem register_raises_without_main_window:
  "find_main_window (objs no_window_world) (top_level no_window_world) = None
   \<and> main_win no_window_world = None
   \<and> find_modules_dict (objs no_window_world) (frames_left no_window_world) None
       = Inl AttributeError
   \<and> fst (register no_window_world) = Some AttributeError
   \<and> fst (deactivate no_window_world) = Some AttributeError"
  by code_simp

text \<open>
  C3. \<^verbatim>\<open>register()\<close> does not look for a descriptor that is already there: called
  twice on a registry whose "Compression Member" list ends in a callable, it leaves two
  descriptors with the identifier "Column_Design" at the front of the list.
\<close>

theorem register_twice_duplicates_descriptor:
  assumes "compression_member s = Some (PList xs)"
    and "xs \<noteq> []" and "callable (last xs)"
  shows "compression_member (snd (register (snd (register s)))) =
           Some (PList (column_entry (fst (get_image_path s ''column.png'')) #
                        column_entry (fst (get_image_path s ''column.png'')) # xs))
         \<and> is_column_entry (column_entry (fst (get_image_path s ''column.png'')))"
  using register_twice_list[OF assms] is_column_entry_column_entry by simp

text \<open>The same at a registry that holds the handler only.\<close>

theorem register_twice_duplicates_descriptor_witness:
  "compression_member (example_world [handler]) = Some (PList [handler])
   \<and> [handler] \<noteq> [] \<and> callable (last [handler])
   \<and> compression_member (snd (register (snd (register (example_world [handler]))))) =
           Some (PList (column_entry (fst (get_image_path (example_world [handler]) ''column.png'')) #
                        column_entry (fst (get_image_path (example_world [handler]) ''column.png'')) #
                        [handler]))
   \<and> is_column_entry (column_entry (fst (get_image_path (example_world [handler]) ''column.png'')))"
proof -
  have a: "compression_member (example_world [handler]) = Some (PList [handler])"
    by code_simp
  have b: "[handler] \<noteq> []" by simp
  have c: "callable (last [handler])" by (simp add: handler_def)
  show ?thesis
    using a b c register_twice_duplicates_descriptor[OF a b c] by blast
qed

text \<open>
  C5 (as amended). When \<^verbatim>\<open>deactivate()\<close> is not stopped at lines 358 to 360 (closing
  an open column module window raises nothing), it removes the first element of the list
  that is a tuple of length at least 3 whose third field is "Column_Design", and only
  that one: the elements before and after it stay, in order. Whether a three-field tuple
  matches depends on its identifier field alone.
\<close>

theorem deactivate_removes_first_column_entry:
  assumes "compression_member s = Some (PList xs)"
    and "module_window_closes s"
    and "i < length xs" and "is_column_entry (xs ! i)"
    and "\<forall>j<i. \<not> is_column_entry (xs ! j)"
  shows "compression_member (snd (deactivate s)) = Some (PList (take i xs @ drop (Suc i) xs))
         \<and> (\<forall>display_name image_path identifier.
               is_column_entry (PTuple [display_name, image_path, identifier]) =
                 (identifier = PStr ''Column_Design''))"
proof -
  obtain m d where loc: "located_registry s = Some (m, d)"
    and cm: "map_of d ''Compression Member'' = Some (PList xs)"
    using compression_memberD[OF assms(1)] by blast
  have "find_column_entry 0 xs = Some i"
    using find_column_entry_first[OF assms(3,4,5), of 0] by simp
  then have "without_first_column xs = take i xs @ drop (Suc i) xs"
    by (simp add: without_first_column_def pop_def)
  then show ?thesis
    by (simp add: deactivate_found_registry[OF assms(2) loc cm] is_column_entry_def)
qed

text \<open>
  The same at a list with two column descriptors of different image paths: the first one
  goes, the second one stays.
\<close>

theorem deactivate_removes_first_column_entry_witness:
  "compression_member (example_world [strut_entry, column_entry ''a.png'', column_entry ''b.png'', handler])
     = Some (PList [strut_entry, column_entry ''a.png'', column_entry ''b.png'', handler])
   \<and> module_window_closes
        (example_world [strut_entry, column_entry ''a.png'', column_entry ''b.png'', handler])
   \<and> 1 < length [strut_entry, column_entry ''a.png'', column_entry ''b.png'', handler]
   \<and> is_column_entry ([strut_entry, column_entry ''a.png'', column_entry ''b.png'', handler] ! 1)
   \<and> \<not> is_column_entry
         ([strut_entry, column_entry ''a.png'', column_entry ''b.png'', handler] ! 0)
   \<and> compression_member (snd (deactivate
        (example_world [strut_entry, column_entry ''a.png'', column_entry ''b.png'', handler])))
     = Some (PList [strut_entry, column_entry ''b.png'', handler])"
proof -
  let ?xs = "[strut_entry, column_entry ''a.png'', column_entry ''b.png'', handler]"
  have a: "compression_member (example_world ?xs) = Some (PList ?xs)" by code_simp
  have b: "module_window_closes (example_world ?xs)" by code_simp
  have c: "1 < length ?xs" by simp
  have d: "is_column_entry (?xs ! 1)" by (simp add: is_column_entry_column_entry)
  have e: "\<forall>j<1. \<not> is_column_entry (?xs ! j)"
    by (simp add: is_column_entry_def strut_entry_def)
  have f: "\<not> is_column_entry (?xs ! 0)"
    by (simp add: is_column_entry_def strut_entry_def)
  show ?thesis
    using a b c d f deactivate_removes_first_column_entry[OF a b c d e] by simp
qed

text \<open>
  C5 as stated has no proviso. With a column descriptor in the list and a stale module
  window, \<^verbatim>\<open>deactivate()\<close> raises \<^verbatim>\<open>RuntimeError\<close> at line 360 and removes nothing.
\<close>

theorem deactivate_removes_nothing_counterexample:
  "compression_member
      (stale_window_world
         [(''Compression Member'', PList [strut_entry, column_entry ''a.png'', handler])])
     = Some (PList [strut_entry, column_entry ''a.png'', handler])
   \<and> is_column_entry ([strut_entry, column_entry ''a.png'', handler] ! 1)
   \<and> \<not> is_column_entry ([strut_entry, column_entry ''a.png'', handler] ! 0)
   \<and> fst (deactivate (stale_window_world
         [(''Compression Member'', PList [strut_entry, column_entry ''a.png'', handler])]))
     = Some RuntimeError
   \<and> compression_member (snd (deactivate (stale_window_world
         [(''Compression Member'', PList [strut_entry, column_entry ''a.png'', handler])])))
     = Some (PList [strut_entry, column_entry ''a.png'', handler])"
  by code_simp

text \<open>
  C6 (as amended). When the registry that \<^verbatim>\<open>deactivate()\<close> finds has no "Compression Member" key,
  the call changes no object of the graph, so no key and no value of any registry; and
  when it is not stopped at lines 358 to 360 (closing an open column module window
  raises nothing) it ends without an exception, having printed an error line.
\<close>

theorem deactivate_without_category_changes_nothing:
  assumes "find_modules_dict (objs s) (frames_left s) (real_main_window s) = Inr (Some (m, d))"
    and "map_of d ''Compression Member'' = None"
  shows "objs (snd (deactivate s)) = objs s
         \<and> (module_window_closes s \<longrightarrow>
              fst (deactivate s) = None
              \<and> Print (if d = [] then ''Error: Could not find Modules dictionary''
                        else ''Error: Compression Member module not found in Modules dictionary'')
                  \<in> set (drop (length (trace s)) (trace (snd (deactivate s)))))"
  using deactivate_without_key[OF assms] by simp

text \<open>The same at a registry whose only category is "Tension Member".\<close>

theorem deactivate_without_category_changes_nothing_witness:
  "find_modules_dict (objs other_registry_world) (frames_left other_registry_world)
       (real_main_window other_registry_world)
     = Inr (Some (Some 0, [(''Tension Member'', PCallable ''show_tension_module'')]))
   \<and> map_of [(''Tension Member'', PCallable ''show_tension_module'')] ''Compression Member'' = None
   \<and> module_window_closes other_registry_world
   \<and> objs (snd (deactivate other_registry_world)) = objs other_registry_world
   \<and> fst (deactivate other_registry_world) = None
   \<and> Print ''Error: Compression Member module not found in Modules dictionary''
        \<in> set (drop (length (trace other_registry_world))
                   (trace (snd (deactivate other_registry_world))))"
proof -
  have a: "find_modules_dict (objs other_registry_world) (frames_left other_registry_world)
       (real_main_window other_registry_world)
     = Inr (Some (Some 0, [(''Tension Member'', PCallable ''show_tension_module'')]))"
    by code_simp
  have b: "map_of [(''Tension Member'', PCallable ''show_tension_module'')] ''Compression Member''
             = None"
    by simp
  have c: "module_window_closes other_registry_world" by code_simp
  show ?thesis
    using a b c deactivate_without_category_changes_nothing[OF a b] by simp
qed

text \<open>
  C6 as stated says that an error is logged in every case. With no "Compression Member"
  key and a stale module window, \<^verbatim>\<open>deactivate()\<close> raises \<^verbatim>\<open>RuntimeError\<close> at line
  360; the only line it has printed is its first one, and that is no error line.
\<close>

theorem deactivate_logs_nothing_counterexample:
  "map_of [(''Tension Member'', handler)] ''Compression Member'' = None
   \<and> find_modules_dict (objs (stale_window_world [(''Tension Member'', handler)]))
         (frames_left (stale_window_world [(''Tension Member'', handler)]))
         (real_main_window (stale_window_world [(''Tension Member'', handler)]))
       = Inr (Some (Some 0, [(''Tension Member'', handler)]))
   \<and> fst (deactivate (stale_window_world [(''Tension Member'', handler)])) = Some RuntimeError
   \<and> trace (snd (deactivate (stale_window_world [(''Tension Member'', handler)])))
       = [Print ''Deactivating Column Plugin...'']"
  by code_simp

text \<open>
  C7 (as amended). \<^verbatim>\<open>register()\<close> tests \<^verbatim>\<open>callable(compression_module[-1])\<close>
  before it touches the list: when the list is not empty and its last element is not
  callable, \<^verbatim>\<open>register()\<close> changes nothing in the registry, prints an error line and
  returns.
\<close>

theorem register_checks_handler_before_mutating:
  assumes "compression_member s = Some (PList xs)"
    and "xs \<noteq> []" and "\<not> callable (last xs)"
  shows "fst (register s) = None \<and> objs (snd (register s)) = objs s
         \<and> last (trace (snd (register s))) =
             Print ''Error: Compression Member module doesn't have a handler function''"
proof -
  obtain m d where loc: "located_registry s = Some (m, d)"
    and cm: "map_of d ''Compression Member'' = Some (PList xs)"
    using compression_memberD[OF assms(1)] by blast
  show ?thesis
    using register_without_handler[OF loc cm assms(2,3)] by simp
qed

text \<open>The same at a list whose last element is an integer.\<close>

theorem register_checks_handler_before_mutating_witness:
  "compression_member (example_world [strut_entry, PInt 0]) = Some (PList [strut_entry, PInt 0])
   \<and> [strut_entry, PInt 0] \<noteq> [] \<and> \<not> callable (last [strut_entry, PInt 0])
   \<and> fst (register (example_world [strut_entry, PInt 0])) = None
   \<and> objs (snd (register (example_world [strut_entry, PInt 0])))
       = objs (example_world [strut_entry, PInt 0])
   \<and> last (trace (snd (register (example_world [strut_entry, PInt 0])))) =
             Print ''Error: Compression Member module doesn't have a handler function''"
proof -
  have a: "compression_member (example_world [strut_entry, PInt 0])
             = Some (PList [strut_entry, PInt 0])"
    by code_simp
  have b: "[strut_entry, PInt 0] \<noteq> []" by simp
  have c: "\<not> callable (last [strut_entry, PInt 0])" by simp
  show ?thesis
    using a b c register_checks_handler_before_mutating[OF a b c] by blast
qed

text \<open>
  C7 as stated says that \<^verbatim>\<open>register()\<close> mutates the list whether or not its last
  element is callable. On a list that holds one descriptor and no handler the list after
  \<^verbatim>\<open>register()\<close> is the list before.
\<close>

theorem register_mutates_regardless_counterexample:
  "compression_member (example_world [strut_entry]) = Some (PList [strut_entry])
   \<and> \<not> callable (last [strut_entry])
   \<and> fst (register (example_world [strut_entry])) = None
   \<and> compression_member (snd (register (example_world [strut_entry]))) = Some (PList [strut_entry])"
  by code_simp

text \<open>
  C9. On a compression-member page (one with a "Strut_Design" radio button) where
  \<^verbatim>\<open>findChild\<close> finds no "Column_Design" radio button, the step of
  \<^verbatim>\<open>deactivate()\<close> for that page raises nothing and makes no toolkit call that
  removes or deletes a widget: it prints one line.
\<close>

theorem deactivate_page_skips_removal_without_column_button:
  assumes "getattr findChild h page = Some buttons" and "qt_call h page = None"
    and "map_of buttons ''Strut_Design'' = Some strut_button"
    and "map_of buttons ''Column_Design'' = None"
  shows "deactivate_page h page = (None, [Print ''Found Compression Member page''])"
  using deactivate_page_no_column[OF assms(1,2,4)] assms(3) by simp

text \<open>The same at a page whose only radio button is "Strut_Design".\<close>

theorem deactivate_page_skips_removal_without_column_button_witness:
  "getattr findChild compression_page_graph (Some 0) = Some [(''Strut_Design'', 1)]
   \<and> qt_call compression_page_graph (Some 0) = None
   \<and> map_of [(''Strut_Design'', 1::nat)] ''Strut_Design'' = Some 1
   \<and> map_of [(''Strut_Design'', 1::nat)] ''Column_Design'' = None
   \<and> deactivate_page compression_page_graph (Some 0)
       = (None, [Print ''Found Compression Member page''])"
proof -
  have a: "getattr findChild compression_page_graph (Some 0) = Some [(''Strut_Design'', 1)]"
    by code_simp
  have b: "qt_call compression_page_graph (Some 0) = None" by code_simp
  have c: "map_of [(''Strut_Design'', 1::nat)] ''Strut_Design'' = Some 1" by simp
  have d: "map_of [(''Strut_Design'', 1::nat)] ''Column_Design'' = None" by simp
  show ?thesis
    using a b c d deactivate_page_skips_removal_without_column_button[OF a b c d] by blast
qed

text \<open>
  C10. If the registry's "Compression Member" list ends in a callable before
  \<^verbatim>\<open>register()\<close> or \<^verbatim>\<open>deactivate()\<close>, it does so afterwards, whatever the outcome
  of the call.
\<close>

theorem handler_stays_last:
  assumes "handler_in_place s"
  shows "handler_in_place (snd (register s)) \<and> handler_in_place (snd (deactivate s))"
  using assms by (simp add: handler_in_place_register handler_in_place_deactivate)

text \<open>
  The same at a list with a column descriptor, another descriptor and the handler.
\<close>

theorem handler_stays_last_witness:
  "handler_in_place (example_world [column_entry ''a.png'', strut_entry, handler])
   \<and> handler_in_place (snd (register (example_world [column_entry ''a.png'', strut_entry, handler])))
   \<and> handler_in_place (snd (deactivate (example_world [column_entry ''a.png'', strut_entry, handler])))"
proof -
  have a: "handler_in_place (example_world [column_entry ''a.png'', strut_entry, handler])"
    by code_simp
  show ?thesis using a handler_stays_last[OF a] by blast
qed

text \<open>
  C8, at a widget tree where an address is used twice. The depth-first order from the
  window is 0, 1, 3, 2, 4, 5 and widget 5 exposes \<^verbatim>\<open>Modules\<close>; the search finds the
  number of widget 4 in \<open>visited\<close>, left there by widget 3, skips widget 4 with
  everything below it and returns \<^verbatim>\<open>(None, None)\<close>, and so does
  \<^verbatim>\<open>_find_modules_dict\<close>. With every address used once the search is the depth-first
  one (lemma \<open>search_for_modules_depth_first\<close>).
\<close>

theorem search_misses_registry_when_id_reused:
  "widget_graph reused_id_graph
   \<and> dfs_order reused_id_graph [0] {} = [0, 1, 3, 2, 4, 5]
   \<and> first_with_Modules reused_id_graph (dfs_order reused_id_graph [0] {})
       = Some (5, [(''Compression Member'', PList [handler])])
   \<and> map_sum id fst (search_for_modules reused_id_graph 900 0 {}) = Inr None
   \<and> find_modules_dict reused_id_graph 900 (Some 0) = Inr None"
  by code_simp

end
